theory Spec2Isabelle
  imports Complex_Main "HOL-Library.Multiset"
begin

section \<open>The bottom-sheet engine of useBottomSheet.ts\<close>

text \<open>
  A shallow embedding of the gesture and snap engine of \<^verbatim>\<open>src/useBottomSheet.ts\<close>.
  A JavaScript number that can be non-finite is a \<open>js_number\<close>: the snap points, the
  offset \<^verbatim>\<open>translateY\<close>, the overdrag progress, the velocity sample and the index handed
  to \<^verbatim>\<open>snapToIndex\<close>. Pointer coordinates, element sizes, times and the numeric options
  are finite and are real numbers. Signed zeros are not distinguished.

  Two things are left to the machine and are taken from the environment: the rounding of
  an arithmetic result to a double, which is applied where a progress value and a pixel
  offset are converted into each other and in the distances of the nearest-point scans
  (elsewhere results are exact), and the order in which \<^verbatim>\<open>Array.prototype.sort\<close> leaves
  a list on which the comparator is inconsistent.
\<close>

subsection \<open>Numbers\<close>

datatype js_number = Finite real | PosInfinity | NegInfinity | NaN

text \<open>\<^verbatim>\<open>a / b\<close> on finite numbers.\<close>

definition js_div :: "real \<Rightarrow> real \<Rightarrow> js_number" where
  "js_div a b =
     (if b = 0 then (if 0 < a then PosInfinity else if a < 0 then NegInfinity else NaN)
      else Finite (a / b))"

text \<open>
  \<^verbatim>\<open>Math.abs(x)\<close>, \<^verbatim>\<open>x > c\<close> and \<^verbatim>\<open>x >= c\<close> for a finite bound \<open>c\<close>, \<^verbatim>\<open>a < b\<close>, and
  \<^verbatim>\<open>Math.max(0, x)\<close>. A comparison with \<^verbatim>\<open>NaN\<close> is false; \<^verbatim>\<open>Math.max\<close> and \<^verbatim>\<open>Math.min\<close>
  return \<^verbatim>\<open>NaN\<close> when an argument is \<^verbatim>\<open>NaN\<close>.
\<close>

fun js_abs :: "js_number \<Rightarrow> js_number" where
  "js_abs (Finite r) = Finite \<bar>r\<bar>"
| "js_abs PosInfinity = PosInfinity"
| "js_abs NegInfinity = PosInfinity"
| "js_abs NaN = NaN"

fun js_gt :: "js_number \<Rightarrow> real \<Rightarrow> bool" where
  "js_gt (Finite r) c = (c < r)"
| "js_gt PosInfinity c = True"
| "js_gt NegInfinity c = False"
| "js_gt NaN c = False"

fun js_ge :: "js_number \<Rightarrow> real \<Rightarrow> bool" where
  "js_ge (Finite r) c = (c \<le> r)"
| "js_ge PosInfinity c = True"
| "js_ge NegInfinity c = False"
| "js_ge NaN c = False"

fun js_lt :: "js_number \<Rightarrow> js_number \<Rightarrow> bool" where
  "js_lt NaN b = False"
| "js_lt a NaN = False"
| "js_lt PosInfinity b = False"
| "js_lt a NegInfinity = False"
| "js_lt NegInfinity b = True"
| "js_lt a PosInfinity = True"
| "js_lt (Finite a) (Finite b) = (a < b)"


text \<open>
  \<^verbatim>\<open>x * h\<close>, \<^verbatim>\<open>x / h\<close> for a finite \<open>h\<close>, and \<^verbatim>\<open>a - b\<close>; a finite result is rounded by
  \<open>rnd\<close>.
\<close>

fun js_times :: "(real \<Rightarrow> real) \<Rightarrow> js_number \<Rightarrow> real \<Rightarrow> js_number" where
  "js_times rnd (Finite r) h = Finite (rnd (r * h))"
| "js_times rnd PosInfinity h = (if 0 < h then PosInfinity else if h < 0 then NegInfinity else NaN)"
| "js_times rnd NegInfinity h = (if 0 < h then NegInfinity else if h < 0 then PosInfinity else NaN)"
| "js_times rnd NaN h = NaN"

fun js_over :: "(real \<Rightarrow> real) \<Rightarrow> js_number \<Rightarrow> real \<Rightarrow> js_number" where
  "js_over rnd (Finite r) h = (if h = 0 then js_div r 0 else Finite (rnd (r / h)))"
| "js_over rnd PosInfinity h = (if h < 0 then NegInfinity else PosInfinity)"
| "js_over rnd NegInfinity h = (if h < 0 then PosInfinity else NegInfinity)"
| "js_over rnd NaN h = NaN"

fun js_minus :: "(real \<Rightarrow> real) \<Rightarrow> js_number \<Rightarrow> js_number \<Rightarrow> js_number" where
  "js_minus rnd NaN b = NaN"
| "js_minus rnd a NaN = NaN"
| "js_minus rnd (Finite a) (Finite b) = Finite (rnd (a - b))"
| "js_minus rnd PosInfinity PosInfinity = NaN"
| "js_minus rnd NegInfinity NegInfinity = NaN"
| "js_minus rnd PosInfinity b = PosInfinity"
| "js_minus rnd NegInfinity b = NegInfinity"
| "js_minus rnd a PosInfinity = NegInfinity"
| "js_minus rnd a NegInfinity = PosInfinity"

text \<open>
  Rounding to the nearest double: the relative error is at most \<open>2^-53\<close>, and at most
  \<open>2^-1075\<close> in absolute value where the result is subnormal; no overflow below \<open>2^1023\<close>.
\<close>

definition double_rounding :: "(real \<Rightarrow> real) \<Rightarrow> bool" where
  "double_rounding rnd \<longleftrightarrow>
     (\<forall>x. \<bar>x\<bar> \<le> 2 ^ 1023 \<longrightarrow> \<bar>rnd x - x\<bar> \<le> \<bar>x\<bar> / 2 ^ 53 + 1 / 2 ^ 1075)"

text \<open>
  \<^verbatim>\<open>x | 0\<close>: the ToInt32 conversion. Non-finite values give 0; a finite value is
  truncated toward zero, reduced modulo \<open>2^32\<close> and read as a signed 32-bit integer.
\<close>

definition ToInt32 :: "js_number \<Rightarrow> int" where
  "ToInt32 x =
     (case x of
        Finite r \<Rightarrow>
          (let n = (if r < 0 then \<lceil>r\<rceil> else \<lfloor>r\<rfloor>);
               m = n mod 2 ^ 32
           in if 2 ^ 31 \<le> m then m - 2 ^ 32 else m)
      | _ \<Rightarrow> 0)"

text \<open>
  \<^verbatim>\<open>function clamp01(x) { return Math.min(1, Math.max(0, x)); }\<close>
  \<open>clamp01r\<close> is its value on a finite number.
\<close>

definition clamp01r :: "real \<Rightarrow> real" where
  "clamp01r x = min 1 (max 0 x)"

fun clamp01 :: "js_number \<Rightarrow> js_number" where
  "clamp01 (Finite r) = Finite (clamp01r r)"
| "clamp01 PosInfinity = Finite 1"
| "clamp01 NegInfinity = Finite 0"
| "clamp01 NaN = NaN"

subsection \<open>Snap points\<close>

text \<open>
  \<^verbatim>\<open>Array.from(new Set(xs))\<close>: a JavaScript \<^verbatim>\<open>Set\<close> keeps the first occurrence of each
  value, in insertion order; \<^verbatim>\<open>NaN\<close> is equal to itself there.
\<close>

fun Set_add_all :: "'a list \<Rightarrow> 'a list \<Rightarrow> 'a list" where
  "Set_add_all seen [] = seen"
| "Set_add_all seen (x # xs) = Set_add_all (if x \<in> set seen then seen else seen @ [x]) xs"

definition Array_from_Set :: "'a list \<Rightarrow> 'a list" where
  "Array_from_Set xs = Set_add_all [] xs"

text \<open>
  \<^verbatim>\<open>xs.sort((a, b) => a - b)\<close>. \<open>cmp_le a b\<close> says that the comparator's value for
  \<open>(a, b)\<close> is not positive; a comparator value \<^verbatim>\<open>NaN\<close> counts as 0. On a list without
  \<^verbatim>\<open>NaN\<close> the comparator is a consistent order and the sort is the stable ascending one
  (\<open>js_sort\<close>). With a \<^verbatim>\<open>NaN\<close> in the list the comparator calls it equal to every element:
  when all elements are then equal the stable sort leaves the list as it is; otherwise the
  comparator is inconsistent and ECMAScript leaves the order to the implementation, as
  long as it is a permutation. \<open>impl\<close> is the implementation's order.
\<close>

fun cmp_le :: "js_number \<Rightarrow> js_number \<Rightarrow> bool" where
  "cmp_le NaN b = True"
| "cmp_le a NaN = True"
| "cmp_le NegInfinity b = True"
| "cmp_le a PosInfinity = True"
| "cmp_le PosInfinity b = False"
| "cmp_le a NegInfinity = False"
| "cmp_le (Finite a) (Finite b) = (a \<le> b)"

fun js_insort :: "js_number \<Rightarrow> js_number list \<Rightarrow> js_number list" where
  "js_insort x [] = [x]"
| "js_insort x (y # ys) = (if cmp_le x y then x # y # ys else y # js_insort x ys)"

definition js_sort :: "js_number list \<Rightarrow> js_number list" where
  "js_sort xs = foldr js_insort xs []"

definition all_equal :: "js_number list \<Rightarrow> bool" where
  "all_equal xs = list_all (\<lambda>a. list_all (\<lambda>b. cmp_le a b \<and> cmp_le b a) xs) xs"

definition Array_sort :: "(js_number list \<Rightarrow> js_number list) \<Rightarrow> js_number list \<Rightarrow> js_number list" where
  "Array_sort impl xs =
     (if NaN \<notin> set xs then js_sort xs
      else if all_equal xs then xs
      else if mset (impl xs) = mset xs then impl xs
      else xs)"

text \<open>
  \<^verbatim>\<open>function uniqSorted(arr) {
    return Array.from(new Set(arr.map(clamp01))).sort((a, b) => a - b); }\<close>
\<close>

definition uniqSorted :: "(js_number list \<Rightarrow> js_number list) \<Rightarrow> js_number list \<Rightarrow> js_number list" where
  "uniqSorted impl arr = Array_sort impl (Array_from_Set (map clamp01 arr))"

text \<open>
  The nearest-point scan of \<^verbatim>\<open>currentSnapIndex\<close> (a \<^verbatim>\<open>forEach\<close>) and of \<^verbatim>\<open>endDrag\<close> (a
  \<^verbatim>\<open>for\<close> loop):
  \<^verbatim>\<open>let idx = 0, dmin = Infinity;
  points.forEach((sp, i) => { const d = Math.abs(sp - p); if (d < dmin) { dmin = d; idx = i; } });\<close>
  The accumulator is the pair \<open>(idx, dmin)\<close>; \<open>distance_to\<close> is the distance of a point to the
  progress, \<^verbatim>\<open>Math.abs(sp - p)\<close> in the first and \<^verbatim>\<open>Math.abs(p - points[i])\<close> in the second.
\<close>

fun nearest_scan ::
  "(js_number \<Rightarrow> js_number) \<Rightarrow> js_number list \<Rightarrow> nat \<Rightarrow> nat \<times> js_number \<Rightarrow> nat \<times> js_number" where
  "nearest_scan distance_to [] i acc = acc"
| "nearest_scan distance_to (sp # sps) i (idx, dmin) =
     (let d = distance_to sp
      in if js_lt d dmin then nearest_scan distance_to sps (Suc i) (i, d)
         else nearest_scan distance_to sps (Suc i) (idx, dmin))"

definition nearest_index :: "(js_number \<Rightarrow> js_number) \<Rightarrow> js_number list \<Rightarrow> nat" where
  "nearest_index distance_to points = fst (nearest_scan distance_to points 0 (0, PosInfinity))"

text \<open>Values of which any two at different positions differ by at least \<open>g\<close>.\<close>

definition apart :: "real \<Rightarrow> real list \<Rightarrow> bool" where
  "apart g rs \<longleftrightarrow>
     (\<forall>j k. j < length rs \<and> k < length rs \<and> j \<noteq> k \<longrightarrow> g \<le> \<bar>rs ! j - rs ! k\<bar>)"

subsection \<open>Data model\<close>

datatype CloseReason = Programmatic | Backdrop | Esc | Drag | Internal | History

text \<open>The \<^verbatim>\<open>EventMap\<close> of the emitter; the state keeps the feed of emitted events.\<close>

datatype event =
    EvOpen
  | EvAfterOpen
  | EvClose CloseReason
  | EvSnap int js_number
  | EvDragStart
  | EvDrag js_number js_number
  | EvDragEnd bool

text \<open>
  Callbacks handed to \<^verbatim>\<open>requestAnimationFrame\<close>, and the \<^verbatim>\<open>onDone\<close> closure of
  \<^verbatim>\<open>closeAnimated\<close>, which a \<^verbatim>\<open>transitionend\<close> event or the fallback timer runs (its
  \<^verbatim>\<open>done\<close> flag lets it run once).
\<close>

datatype task =
    RafPerformOpen
  | RafSnapToIndex js_number bool
  | RafCloseAnimated CloseReason real
  | CloseAnimatedDone CloseReason

text \<open>
  What awaiting \<^verbatim>\<open>onBeforeClose(reason)\<close> gives: a boolean, or an exception (a throw
  or a rejected promise). The hook is taken to be a function of the reason that does
  not call back into the engine.
\<close>

datatype hook_result = Resolves bool | Throws

datatype open_animation = FromBottom | SnapAnimation | NoAnimation

datatype axis = AxisX | AxisY

text \<open>The options the modelled functions read, with the defaults of the source.\<close>

record config =
  rememberLastSnapIndex :: bool
  closeThresholdPx :: real
  closeThresholdRatio :: real
  flingVelocityPxPerMs :: real
  openAnimation :: open_animation
  openAnimationExtraPx :: real
  overdragUpPx :: real
  overdragDownPx :: real
  overdragDamping :: real
  trapFocus :: bool
  closeOnEsc :: bool
  snapPoints :: "js_number list"
  initialSnapIndex :: js_number
  onBeforeClose :: "(CloseReason \<Rightarrow> hook_result) option"

definition default_config :: config where
  "default_config =
     \<lparr> rememberLastSnapIndex = True,
       closeThresholdPx = 120,
       closeThresholdRatio = 0.25,
       flingVelocityPxPerMs = 1.2,
       openAnimation = FromBottom,
       openAnimationExtraPx = 120,
       overdragUpPx = 80,
       overdragDownPx = 120,
       overdragDamping = 0.5,
       trapFocus = True,
       closeOnEsc = True,
       snapPoints = [Finite 0, Finite 1],
       initialSnapIndex = Finite 0,
       onBeforeClose = None \<rparr>"

text \<open>
  What the engine takes from its host. From the page: the sheet element's
  \<^verbatim>\<open>offsetHeight\<close> (an integer, \<open>None\<close> while \<^verbatim>\<open>sheetRef.value\<close> is null),
  \<^verbatim>\<open>window.innerHeight\<close> and \<^verbatim>\<open>performance.now()\<close>. From the machine: the rounding of an
  arithmetic result, and the order \<^verbatim>\<open>sort\<close> gives a list under an inconsistent comparator.
\<close>

record env =
  offsetHeight :: "nat option"
  innerHeight :: nat
  now :: real
  rounding :: "real \<Rightarrow> real"
  sort_order :: "js_number list \<Rightarrow> js_number list"

text \<open>
  The variables of one \<^verbatim>\<open>useBottomSheet\<close> instance. \<open>STACK_COUNT\<close> is the module-level
  counter as this instance sees it; \<open>events\<close> is the feed of emitted events and
  \<open>pending\<close> the callbacks scheduled and not yet run. The DOM collaborators (body
  class, inert root, history entry, pointer capture, focus, the scroll area of
  \<^verbatim>\<open>dragOrigin\<close>) are outside the model, and so are the user hooks \<^verbatim>\<open>onClose\<close>,
  \<^verbatim>\<open>onSnap\<close>, \<^verbatim>\<open>onDrag\<close>, ..., which the source calls inside \<^verbatim>\<open>try/catch\<close> next to
  each \<^verbatim>\<open>events.emit\<close>, and the watcher of \<^verbatim>\<open>isOpen\<close>, which emits \<^verbatim>\<open>open\<close> and
  \<^verbatim>\<open>afterOpen\<close>.
\<close>

record sheet =
  isOpen :: bool
  isAnimating :: bool
  reduceMotion :: bool
  translateY :: js_number
  dragging :: bool
  activePointerId :: "int option"
  startY :: real
  startX :: real
  preDrag :: bool
  axisLocked :: "axis option"
  lastY :: real
  lastT :: real
  vY :: js_number
  stackIndex :: "int option"
  STACK_COUNT :: int
  lastSnapIndexMem :: js_number
  overUp :: js_number
  snapPointsRef :: "js_number list"
  events :: "event list"
  pending :: "task list"

text \<open>The state \<^verbatim>\<open>useBottomSheet(opts)\<close> starts in.\<close>

definition initial_sheet :: "config \<Rightarrow> sheet" where
  "initial_sheet cfg =
     \<lparr> isOpen = False, isAnimating = False, reduceMotion = False, translateY = Finite 0,
       dragging = False, activePointerId = None, startY = 0, startX = 0,
       preDrag = False, axisLocked = None, lastY = 0, lastT = 0, vY = Finite 0,
       stackIndex = None, STACK_COUNT = 0, lastSnapIndexMem = initialSnapIndex cfg,
       overUp = Finite 0, snapPointsRef = snapPoints cfg, events = [], pending = [] \<rparr>"

text \<open>\<^verbatim>\<open>events.emit(event, payload)\<close> and \<^verbatim>\<open>requestAnimationFrame(callback)\<close>.\<close>

definition emit :: "event \<Rightarrow> sheet \<Rightarrow> sheet" where
  "emit ev s = s\<lparr>events := events s @ [ev]\<rparr>"

definition requestAnimationFrame :: "task \<Rightarrow> sheet \<Rightarrow> sheet" where
  "requestAnimationFrame t s = s\<lparr>pending := pending s @ [t]\<rparr>"

text \<open>\<^verbatim>\<open>sheetRef.value?.offsetHeight || 0\<close> and \<^verbatim>\<open>... || 1\<close>.\<close>

definition height_or :: "real \<Rightarrow> env \<Rightarrow> real" where
  "height_or dflt e =
     (case offsetHeight e of None \<Rightarrow> dflt | Some n \<Rightarrow> if n = 0 then dflt else real n)"

subsection \<open>Snap model\<close>

text \<open>
  \<^verbatim>\<open>const snaps = computed(() =>
    uniqSorted(snapPointsRef.value.length ? snapPointsRef.value : [0, 1]));\<close>
\<close>

definition snaps :: "env \<Rightarrow> sheet \<Rightarrow> js_number list" where
  "snaps e s =
     uniqSorted (sort_order e)
       (if snapPointsRef s \<noteq> [] then snapPointsRef s else [Finite 0, Finite 1])"

text \<open>
  \<^verbatim>\<open>const h = sheetRef.value?.offsetHeight || 1;
  const p = clamp01(h ? translateY.value / h : 0);\<close> followed by the scan.
\<close>

definition currentSnapIndex :: "env \<Rightarrow> sheet \<Rightarrow> nat" where
  "currentSnapIndex e s =
     (let h = height_or 1 e;
          p = clamp01 (if h \<noteq> 0 then js_over (rounding e) (translateY s) h else Finite 0)
      in nearest_index (\<lambda>sp. js_abs (js_minus (rounding e) sp p)) (snaps e s))"


text \<open>
  \<^verbatim>\<open>function snapTo(progress, animate = true) {
    const h = sheetRef.value?.offsetHeight || 0;
    const targetPx = clamp01(progress) * h;
    if (!animate || reduceMotion.value) { translateY.value = targetPx; return; }
    isAnimating.value = true;
    translateY.value = targetPx; }\<close>
\<close>

definition snapTo :: "env \<Rightarrow> js_number \<Rightarrow> bool \<Rightarrow> sheet \<Rightarrow> sheet" where
  "snapTo e progress animate s =
     (let h = height_or 0 e;
          targetPx = js_times (rounding e) (clamp01 progress) h
      in if \<not> animate \<or> reduceMotion s then s\<lparr>translateY := targetPx\<rparr>
         else s\<lparr>isAnimating := True, translateY := targetPx\<rparr>)"

text \<open>
  \<^verbatim>\<open>function snapToIndex(index, animate = true) {
    const pts = snaps.value;
    const i = Math.max(0, Math.min(pts.length - 1, index | 0));
    const p = pts[i];
    snapTo(p, animate);
    lastSnapIndexMem = i;
    try { callIfFn(onSnap, i, p); } catch {}
    events.emit('snap', { index: i, progress: p }); }\<close>
  \<open>pts\<close> is never empty (lemma \<open>snaps_not_Nil\<close>), so \<open>pts[i]\<close> is an element.
\<close>

definition snapToIndex :: "env \<Rightarrow> js_number \<Rightarrow> bool \<Rightarrow> sheet \<Rightarrow> sheet" where
  "snapToIndex e index animate s =
     (let pts = snaps e s;
          i = max 0 (min (int (length pts) - 1) (ToInt32 index));
          p = pts ! nat i
      in emit (EvSnap i p)
           ((snapTo e p animate s)\<lparr>lastSnapIndexMem := Finite (real_of_int i)\<rparr>))"

subsection \<open>Open and close\<close>

text \<open>
  \<^verbatim>\<open>function close(reason = 'programmatic') {
    isOpen.value = false; translateY.value = 0; overUp.value = 0;
    ...
    activePointerId.value = null; preDrag = false; axisLocked = null;
    ...
    if (stackIndex.value !== null) {
      STACK_COUNT = Math.max(0, STACK_COUNT - 1);
      stackIndex.value = null; }
    ...
    events.emit('close', { reason }); }\<close>
  There is no test of \<^verbatim>\<open>isOpen\<close> in it.
\<close>

definition close :: "CloseReason \<Rightarrow> sheet \<Rightarrow> sheet" where
  "close reason s =
     emit (EvClose reason)
       (s\<lparr> isOpen := False, translateY := Finite 0, overUp := Finite 0,
           activePointerId := None, preDrag := False, axisLocked := None,
           STACK_COUNT := (if stackIndex s \<noteq> None then max 0 (STACK_COUNT s - 1)
                           else STACK_COUNT s),
           stackIndex := None \<rparr>)"

text \<open>
  \<^verbatim>\<open>async function requestClose(reason) {
    if (onBeforeClose) {
      try { const ok = await onBeforeClose(reason); if (!ok) return; }
      catch { return; } }
    close(reason); }\<close>
  Nothing is written before the \<^verbatim>\<open>await\<close>, so the call acts on the state in which
  the hook's answer arrives.
\<close>

definition requestClose :: "config \<Rightarrow> CloseReason \<Rightarrow> sheet \<Rightarrow> sheet" where
  "requestClose cfg reason s =
     (case onBeforeClose cfg of
        None \<Rightarrow> close reason s
      | Some hook \<Rightarrow>
          (case hook reason of
             Resolves ok \<Rightarrow> if \<not> ok then s else close reason s
           | Throws \<Rightarrow> s))"

text \<open>
  \<^verbatim>\<open>function closeAnimated(reason = 'programmatic') {
    if (!isOpen.value) return;
    const h = (sheetRef.value?.offsetHeight || 0) + openAnimationExtraPx;
    isAnimating.value = true;
    requestAnimationFrame(() => { translateY.value = h; ... onDone ... }); }\<close>
\<close>

definition closeAnimated :: "config \<Rightarrow> env \<Rightarrow> CloseReason \<Rightarrow> sheet \<Rightarrow> sheet" where
  "closeAnimated cfg e reason s =
     (if \<not> isOpen s then s
      else let h = height_or 0 e + openAnimationExtraPx cfg
           in requestAnimationFrame (RafCloseAnimated reason h) (s\<lparr>isAnimating := True\<rparr>))"

text \<open>
  \<^verbatim>\<open>function open() {
    isOpen.value = true;
    stackIndex.value = ++STACK_COUNT;
    ...
    requestAnimationFrame(() => performOpenAnimation()); }\<close>
\<close>

definition open_sheet :: "sheet \<Rightarrow> sheet" where
  "open_sheet s =
     requestAnimationFrame RafPerformOpen
       (s\<lparr> isOpen := True,
           STACK_COUNT := STACK_COUNT s + 1,
           stackIndex := Some (STACK_COUNT s + 1) \<rparr>)"

text \<open>
  \<^verbatim>\<open>function performOpenAnimation() {
    if (!sheetRef.value) return;
    const h = sheetRef.value.offsetHeight || 0;
    const targetIndex = rememberLastSnapIndex ? lastSnapIndexMem : initialSnapIndex;
    if (openAnimation === 'fromBottom') {
      isAnimating.value = true;
      translateY.value = h + openAnimationExtraPx;
      requestAnimationFrame(() => snapToIndex(targetIndex, true));
    } else if (openAnimation === 'snap') { snapToIndex(targetIndex, true); }
    else { snapToIndex(targetIndex, false); } }\<close>
\<close>

definition performOpenAnimation :: "config \<Rightarrow> env \<Rightarrow> sheet \<Rightarrow> sheet" where
  "performOpenAnimation cfg e s =
     (if offsetHeight e = None then s
      else let h = height_or 0 e;
               targetIndex = (if rememberLastSnapIndex cfg then lastSnapIndexMem s
                              else initialSnapIndex cfg)
           in case openAnimation cfg of
                FromBottom \<Rightarrow>
                  requestAnimationFrame (RafSnapToIndex targetIndex True)
                    (s\<lparr>isAnimating := True, translateY := Finite (h + openAnimationExtraPx cfg)\<rparr>)
              | SnapAnimation \<Rightarrow> snapToIndex e targetIndex True s
              | NoAnimation \<Rightarrow> snapToIndex e targetIndex False s)"

text \<open>
  Running one scheduled callback. The frame callback of \<^verbatim>\<open>closeAnimated\<close> moves the
  sheet off screen and arms \<^verbatim>\<open>onDone\<close> (on \<^verbatim>\<open>transitionend\<close> and on the fallback
  timer); \<^verbatim>\<open>onDone\<close> is \<^verbatim>\<open>isAnimating.value = false; close(reason);\<close>.
\<close>

fun run_task :: "config \<Rightarrow> env \<Rightarrow> task \<Rightarrow> sheet \<Rightarrow> sheet" where
  "run_task cfg e RafPerformOpen s = performOpenAnimation cfg e s"
| "run_task cfg e (RafSnapToIndex i animate) s = snapToIndex e i animate s"
| "run_task cfg e (RafCloseAnimated reason h) s =
     (s\<lparr>translateY := Finite h, pending := pending s @ [CloseAnimatedDone reason]\<rparr>)"
| "run_task cfg e (CloseAnimatedDone reason) s = close reason (s\<lparr>isAnimating := False\<rparr>)"

text \<open>
  The scheduled callbacks run in the order they were queued, with no input in between;
  \<open>n\<close> bounds the number of callbacks run.
\<close>

fun drain :: "nat \<Rightarrow> config \<Rightarrow> env \<Rightarrow> sheet \<Rightarrow> sheet" where
  "drain 0 cfg e s = s"
| "drain (Suc n) cfg e s =
     (case pending s of
        [] \<Rightarrow> s
      | t # ts \<Rightarrow> drain n cfg e (run_task cfg e t (s\<lparr>pending := ts\<rparr>)))"

text \<open>The callbacks that schedule no further callback.\<close>

fun is_leaf :: "task \<Rightarrow> bool" where
  "is_leaf (RafSnapToIndex i a) = True"
| "is_leaf (CloseAnimatedDone r) = True"
| "is_leaf RafPerformOpen = False"
| "is_leaf (RafCloseAnimated r h) = False"

subsection \<open>Dragging\<close>

text \<open>
  \<^verbatim>\<open>function startDrag(y) {
    dragging.value = true; lastY = y; lastT = performance.now(); vY = 0;
    ...
    events.emit('dragStart', undefined); ... }\<close>
\<close>

definition startDrag :: "env \<Rightarrow> real \<Rightarrow> sheet \<Rightarrow> sheet" where
  "startDrag e y s =
     emit EvDragStart (s\<lparr>dragging := True, lastY := y, lastT := now e, vY := Finite 0\<rparr>)"





text \<open>
  \<^verbatim>\<open>function cleanupGesture() {
    lastY = 0; lastT = 0; vY = 0; overUp.value = 0;
    ...
    activePointerId.value = null; preDrag = false; axisLocked = null; ... }\<close>
\<close>

definition cleanupGesture :: "sheet \<Rightarrow> sheet" where
  "cleanupGesture s =
     s\<lparr> lastY := 0, lastT := 0, vY := Finite 0, overUp := Finite 0,
         activePointerId := None, preDrag := False, axisLocked := None \<rparr>"

text \<open>
  \<^verbatim>\<open>function endDrag() {
    if (!dragging.value) return;
    dragging.value = false;
    overUp.value = 0;
    const h = sheetRef.value?.offsetHeight || 0;
    const p = h ? translateY.value / h : 0;
    if (Math.abs(vY) > flingVelocityPxPerMs && vY > 0) {
      closeAnimated('drag');
    } else {
      const thresholdPx = Math.max(closeThresholdPx, h * closeThresholdRatio);
      if (translateY.value > thresholdPx) {
        closeAnimated('drag'); ... events.emit('dragEnd', { closed: true });
        cleanupGesture(); return; }
      const points = snaps.value;
      let nearest = points[0], dmin = Infinity, ni = 0;
      for (...) { const d = Math.abs(p - points[i]); if (d < dmin) { ... } }
      if (nearest >= 0.999) {
        closeAnimated('drag'); ... events.emit('dragEnd', { closed: true });
        cleanupGesture(); return; }
      isAnimating.value = true;
      snapTo(nearest, true);
      ...
      events.emit('dragEnd', { closed: false });
      events.emit('snap', { index: ni, progress: nearest }); }
    cleanupGesture(); }\<close>
\<close>

definition endDrag :: "config \<Rightarrow> env \<Rightarrow> sheet \<Rightarrow> sheet" where
  "endDrag cfg e s =
     (if \<not> dragging s then s
      else let s1 = s\<lparr>dragging := False, overUp := Finite 0\<rparr>;
               h = height_or 0 e;
               p = (if h \<noteq> 0 then js_over (rounding e) (translateY s1) h else Finite 0)
           in if js_gt (js_abs (vY s1)) (flingVelocityPxPerMs cfg) \<and> js_gt (vY s1) 0
              then cleanupGesture (closeAnimated cfg e Drag s1)
              else let thresholdPx =
                         max (closeThresholdPx cfg) (rounding e (h * closeThresholdRatio cfg))
                   in if js_gt (translateY s1) thresholdPx
                      then cleanupGesture (emit (EvDragEnd True) (closeAnimated cfg e Drag s1))
                      else let points = snaps e s1;
                               ni = nearest_index (\<lambda>sp. js_abs (js_minus (rounding e) p sp)) points;
                               nearest = points ! ni
                           in if js_ge nearest 0.999
                              then cleanupGesture
                                     (emit (EvDragEnd True) (closeAnimated cfg e Drag s1))
                              else cleanupGesture
                                     (emit (EvSnap (int ni) nearest)
                                        (emit (EvDragEnd False)
                                           (snapTo e nearest True (s1\<lparr>isAnimating := True\<rparr>)))))"

subsection \<open>Keydown registry\<close>

datatype key_name = Tab | Escape | ArrowUp | ArrowDown | Home | End | PageUp | PageDown | OtherKey

record KeyboardEvent =
  key :: key_name
  shiftKey :: bool
  defaultPrevented :: bool

text \<open>
  A handler either returns a value or throws; the second component of its result tells
  whether it called \<^verbatim>\<open>preventDefault()\<close> on the event before that. The source tests the
  returned value with \<^verbatim>\<open>handled === true\<close>, so the values are \<^verbatim>\<open>true\<close>, \<^verbatim>\<open>false\<close>,
  \<^verbatim>\<open>undefined\<close>, any other truthy value (\<^verbatim>\<open>1\<close>, \<^verbatim>\<open>'yes'\<close>, an object) and any other falsy
  value. Handlers are taken not to register or unregister handlers and not to call the
  engine.
\<close>

datatype return_value = JSTrue | JSFalse | JSUndefined | OtherTruthy | OtherFalsy

datatype handler_outcome = Returns return_value | HandlerThrows

type_synonym KeydownHandler = "KeyboardEvent \<Rightarrow> handler_outcome \<times> bool"

record KeydownReg =
  reg_id :: nat
  handler :: KeydownHandler
  priority :: real
  once :: bool
  active :: bool

record registry =
  regs :: "KeydownReg list"
  seq :: nat

text \<open>
  \<^verbatim>\<open>function on(handler, opts) {
    const reg = { id: ++seq, handler, priority: opts?.priority ?? 0, once: !!opts?.once, active: true };
    regs.push(reg);
    regs.sort((a, b) => b.priority - a.priority);
    return () => { ... }; }\<close>
\<close>

definition keydown_on :: "KeydownHandler \<Rightarrow> real \<Rightarrow> bool \<Rightarrow> registry \<Rightarrow> registry" where
  "keydown_on h prio o1 r =
     (let reg = \<lparr> reg_id = Suc (seq r), handler = h, priority = prio, once = o1, active = True \<rparr>
      in \<lparr> regs = sort_key (\<lambda>x. - priority x) (regs r @ [reg]), seq = Suc (seq r) \<rparr>)"






subsection \<open>Several sheets and the module-level counter\<close>

text \<open>
  \<^verbatim>\<open>let STACK_COUNT = 0;\<close> is shared by every instance. A page is the counter and its
  instances; an operation of instance \<open>i\<close> runs on that instance with the counter's
  current value and writes the counter back.
\<close>

record page =
  count :: int
  insts :: "sheet list"

definition initial_page :: "config list \<Rightarrow> page" where
  "initial_page cfgs = \<lparr> count = 0, insts = map initial_sheet cfgs \<rparr>"

definition on_instance :: "nat \<Rightarrow> (sheet \<Rightarrow> sheet) \<Rightarrow> page \<Rightarrow> page" where
  "on_instance i f w =
     (if i < length (insts w)
      then let s' = f ((insts w ! i)\<lparr>STACK_COUNT := count w\<rparr>)
           in \<lparr> count = STACK_COUNT s', insts = (insts w)[i := s'] \<rparr>
      else w)"

datatype page_op = Open nat | Close nat CloseReason

fun page_step :: "page_op \<Rightarrow> page \<Rightarrow> page" where
  "page_step (Open i) w = on_instance i open_sheet w"
| "page_step (Close i reason) w = on_instance i (close reason) w"

definition run_ops :: "page_op list \<Rightarrow> page \<Rightarrow> page" where
  "run_ops ops w = fold page_step ops w"

text \<open>
  Closing in stacking order: the instance that closes holds no index, or holds the
  highest index held on the page.
\<close>

definition holds_at_most :: "int \<Rightarrow> sheet \<Rightarrow> bool" where
  "holds_at_most k s = (case stackIndex s of None \<Rightarrow> True | Some m \<Rightarrow> m \<le> k)"

definition topmost :: "page \<Rightarrow> nat \<Rightarrow> bool" where
  "topmost w i =
     (case stackIndex (insts w ! i) of
        None \<Rightarrow> True
      | Some k \<Rightarrow> list_all (holds_at_most k) (insts w))"

fun closes_topmost :: "page_op list \<Rightarrow> page \<Rightarrow> bool" where
  "closes_topmost [] w = True"
| "closes_topmost (Open i # ops) w = closes_topmost ops (page_step (Open i) w)"
| "closes_topmost (Close i reason # ops) w =
     ((i < length (insts w) \<longrightarrow> topmost w i) \<and> closes_topmost ops (page_step (Close i reason) w))"

subsection \<open>Example inputs\<close>

text \<open>A page with a sheet \<open>h\<close> pixels high, on a machine with exact arithmetic.\<close>

definition example_env :: "nat \<Rightarrow> env" where
  "example_env h =
     \<lparr> offsetHeight = Some h, innerHeight = 800, now = 0,
       rounding = (\<lambda>x. x), sort_order = (\<lambda>xs. xs) \<rparr>"

text \<open>
  A sheet 3 pixels high with the two snap points \<^verbatim>\<open>0.1\<close> and \<^verbatim>\<open>0.10000000000000002\<close>
  (the doubles \<open>3602879701896397 / 2^55\<close> and \<open>7205759403792795 / 2^56\<close>, one unit in the
  last place apart), on a machine that rounds as IEEE 754 binary64 does the two inexact
  results that occur when the first point is set and read back: \<^verbatim>\<open>0.1 * 3\<close> is
  \<^verbatim>\<open>0.30000000000000004\<close> (\<open>1351079888211149 / 2^52\<close>), and that divided by 3 is
  \<^verbatim>\<open>0.10000000000000002\<close>. The differences taken by the scan are exact in binary64.
\<close>

definition binary64_env :: env where
  "binary64_env =
     (example_env 3)\<lparr>rounding :=
        (\<lambda>x. if x = 10808639105689191 / 2 ^ 55 then 1351079888211149 / 2 ^ 52
             else if x = 1351079888211149 / (3 * 2 ^ 52) then 7205759403792795 / 2 ^ 56
             else x)\<rparr>"

definition close_points :: "js_number list" where
  "close_points = [Finite (3602879701896397 / 2 ^ 55), Finite (7205759403792795 / 2 ^ 56)]"

text \<open>The same page before the sheet element is mounted.\<close>

definition unmounted_env :: env where
  "unmounted_env = (example_env 0)\<lparr>offsetHeight := None\<rparr>"

definition three_point_config :: config where
  "three_point_config = default_config\<lparr>snapPoints := [Finite 0, Finite (1/2), Finite 1]\<rparr>"

text \<open>A sheet created with the given snap points.\<close>

definition sheet_with :: "js_number list \<Rightarrow> sheet" where
  "sheet_with pts = initial_sheet (default_config\<lparr>snapPoints := pts\<rparr>)"

text \<open>An open sheet with snap points \<open>[0, 0.5, 1]\<close>, in a drag at the given offset and velocity.\<close>

definition dragged_sheet :: "real \<Rightarrow> js_number \<Rightarrow> sheet" where
  "dragged_sheet ty v =
     (initial_sheet three_point_config)
       \<lparr> isOpen := True, stackIndex := Some 1, STACK_COUNT := 1,
         dragging := True, translateY := Finite ty, vY := v \<rparr>"

definition three_sheets :: page where
  "three_sheets = initial_page [default_config, default_config, default_config]"







subsection \<open>The invariant of the counter\<close>

text \<open>
  The index instance \<open>i\<close> holds, and the invariant that closing in stacking order
  keeps: every held index is at most the counter, and no two instances hold the same
  index.
\<close>

definition held :: "page \<Rightarrow> nat \<Rightarrow> int option" where
  "held w i = stackIndex (insts w ! i)"

definition stack_inv :: "page \<Rightarrow> bool" where
  "stack_inv w \<longleftrightarrow>
     (\<forall>i k. i < length (insts w) \<longrightarrow> held w i = Some k \<longrightarrow> k \<le> count w) \<and>
     (\<forall>i j k. i < length (insts w) \<longrightarrow> j < length (insts w) \<longrightarrow> i \<noteq> j \<longrightarrow> held w i = Some k
        \<longrightarrow> held w j \<noteq> Some k)"

section \<open>Properties\<close>

subsection \<open>Snap model\<close>

lemma clamp01r_id: "0 \<le> x \<Longrightarrow> x \<le> 1 \<Longrightarrow> clamp01r x = x"
  by (simp add: clamp01r_def)

lemma clamp01r_range: "0 \<le> clamp01r x \<and> clamp01r x \<le> 1"
  by (simp add: clamp01r_def)

lemma clamp01_cases: "clamp01 x = NaN \<and> x = NaN \<or> (\<exists>r. clamp01 x = Finite r \<and> 0 \<le> r \<and> r \<le> 1 \<and> x \<noteq> NaN)"
  by (cases x) (simp_all add: clamp01r_range)

lemma clamp01_NaN_iff: "clamp01 x = NaN \<longleftrightarrow> x = NaN"
  by (cases x) simp_all

lemma set_Set_add_all: "set (Set_add_all seen xs) = set seen \<union> set xs"
  by (induction xs arbitrary: seen) auto


lemma mset_js_insort: "mset (js_insort x ys) = add_mset x (mset ys)"
  by (induction ys) simp_all

lemma mset_js_sort: "mset (js_sort xs) = mset xs"
  by (induction xs) (simp_all add: js_sort_def mset_js_insort)

lemma mset_Array_sort: "mset (Array_sort impl xs) = mset xs"
  by (simp add: Array_sort_def mset_js_sort)

lemma set_Array_sort: "set (Array_sort impl xs) = set xs"
  using mset_Array_sort [of impl xs] by (metis set_mset_mset)


lemma length_Array_sort: "length (Array_sort impl xs) = length xs"
  using mset_Array_sort [of impl xs] by (metis size_mset)



lemma set_uniqSorted: "set (uniqSorted impl arr) = clamp01 ` set arr"
  by (simp add: uniqSorted_def set_Array_sort Array_from_Set_def set_Set_add_all)







lemma snaps_Finite_unit:
  assumes "snaps e s = map Finite rs" "r \<in> set rs"
  shows "0 \<le> r \<and> r \<le> 1"
proof -
  have "Finite r \<in> set (snaps e s)" using assms by simp
  then obtain a where "Finite r = clamp01 a"
    unfolding snaps_def set_uniqSorted by blast
  then show ?thesis using clamp01_cases [of a] by auto
qed



lemma nearest_scan_stay:
  "(\<And>x. x \<in> set xs \<Longrightarrow> \<not> js_lt (d x) dmin) \<Longrightarrow> nearest_scan d xs j (idx, dmin) = (idx, dmin)"
  by (induction xs arbitrary: j) (simp_all add: Let_def)

text \<open>
  A scan over finite distances returns the position whose distance is strictly below all
  the others.
\<close>

lemma nearest_scan_least:
  "k < length xs \<Longrightarrow> (\<And>j. j < length xs \<Longrightarrow> d (xs ! j) = Finite (D j)) \<Longrightarrow>
   (\<And>j. j < length xs \<Longrightarrow> j \<noteq> k \<Longrightarrow> D k < D j) \<Longrightarrow>
   (dmin = PosInfinity \<or> (\<exists>m. dmin = Finite m \<and> D k < m)) \<Longrightarrow>
   fst (nearest_scan d xs i (idx, dmin)) = i + k"
proof (induction xs arbitrary: k i idx dmin D)
  case Nil
  then show ?case by simp
next
  case (Cons x xs)
  have dx: "d x = Finite (D 0)" using Cons.prems(2) [of 0] by simp
  show ?case
  proof (cases k)
    case 0
    have lt: "js_lt (Finite (D 0)) dmin" using Cons.prems(4) 0 by auto
    have "\<not> js_lt (d y) (Finite (D 0))" if yin: "y \<in> set xs" for y
    proof -
      obtain j where j: "j < length xs" "y = xs ! j" using yin by (auto simp: in_set_conv_nth)
      have "d y = Finite (D (Suc j))" using Cons.prems(2) [of "Suc j"] j by simp
      moreover have "D 0 < D (Suc j)" using Cons.prems(3) [of "Suc j"] j 0 by simp
      ultimately show ?thesis by simp
    qed
    then have rest: "nearest_scan d xs j (i, Finite (D 0)) = (i, Finite (D 0))" for j
      by (rule nearest_scan_stay)
    show ?thesis using 0 dx lt rest by (simp add: Let_def)
  next
    case (Suc k')
    let ?D = "\<lambda>j. D (Suc j)"
    have k': "k' < length xs" using Cons.prems(1) Suc by simp
    have dj: "\<And>j. j < length xs \<Longrightarrow> d (xs ! j) = Finite (?D j)"
      using Cons.prems(2) by force
    have least: "\<And>j. j < length xs \<Longrightarrow> j \<noteq> k' \<Longrightarrow> ?D k' < ?D j"
      using Cons.prems(3) Suc by force
    have k0: "D k < D 0" using Cons.prems(3) [of 0] Suc by simp
    show ?thesis
    proof (cases "js_lt (d x) dmin")
      case True
      have "fst (nearest_scan d xs (Suc i) (i, Finite (D 0))) = Suc i + k'"
        using k' dj least k0 Suc by (intro Cons.IH [of k' ?D]) auto
      with True dx Suc show ?thesis by (simp add: Let_def)
    next
      case False
      have "dmin = PosInfinity \<or> (\<exists>m. dmin = Finite m \<and> ?D k' < m)"
        using Cons.prems(4) Suc by simp
      then have "fst (nearest_scan d xs (Suc i) (idx, dmin)) = Suc i + k'"
        using k' dj least by (intro Cons.IH [of k' ?D]) auto
      with False Suc show ?thesis by (simp add: Let_def)
    qed
  qed
qed

lemma nearest_index_least:
  assumes "k < length xs" "\<And>j. j < length xs \<Longrightarrow> d (xs ! j) = Finite (D j)"
    "\<And>j. j < length xs \<Longrightarrow> j \<noteq> k \<Longrightarrow> D k < D j"
  shows "nearest_index d xs = k"
  using nearest_scan_least [of k xs d D PosInfinity 0 0] assms
  by (simp add: nearest_index_def)

lemma translateY_snapTo:
  "translateY (snapTo e p a s) = js_times (rounding e) (clamp01 p) (height_or 0 e)"
  by (simp add: snapTo_def Let_def)


lemma snaps_snapToIndex: "snaps e' (snapToIndex e i a s) = snaps e' s"
  by (simp add: snapToIndex_def Let_def snaps_def emit_def snapTo_def)

lemma ToInt32_small: "n < 2 ^ 31 \<Longrightarrow> ToInt32 (Finite (real n)) = int n"
proof -
  assume a: "n < 2 ^ 31"
  have "int n < 2 ^ 31" using a by (metis of_nat_less_iff of_nat_numeral of_nat_power)
  then have "int n mod 2 ^ 32 = int n" by simp
  then show ?thesis using \<open>int n < 2 ^ 31\<close> by (simp add: ToInt32_def Let_def)
qed

lemma snaps_three_point: "snaps e (dragged_sheet ty v) = [Finite 0, Finite (1/2), Finite 1]"
  by (simp add: dragged_sheet_def initial_sheet_def three_point_config_def snaps_def
      uniqSorted_def Array_from_Set_def Array_sort_def js_sort_def clamp01r_def)

lemma double_rounding_exact: "double_rounding (\<lambda>x. x)"
  by (simp add: double_rounding_def)

lemma apart_three: "apart (1 / 2 ^ 48) [0, 1/2, 1]"
  unfolding apart_def
proof (intro allI impI)
  fix j k :: nat
  assume a: "j < length [0, 1/2, 1::real] \<and> k < length [0, 1/2, 1::real] \<and> j \<noteq> k"
  then have "j \<in> {0, 1, 2}" "k \<in> {0, 1, 2}" by auto
  then show "1 / 2 ^ 48 \<le> \<bar>[0, 1/2, 1::real] ! j - [0, 1/2, 1] ! k\<bar>"
    using a by auto
qed

lemma double_rounding_binary64: "double_rounding (rounding binary64_env)"
proof -
  have a: "\<bar>1351079888211149 / 2 ^ 52 - 10808639105689191 / 2 ^ 55 :: real\<bar>
             \<le> \<bar>10808639105689191 / 2 ^ 55\<bar> / 2 ^ 53 + 1 / 2 ^ 1075" (is "?l \<le> ?r + ?z")
  proof -
    have "?l \<le> ?r" by simp
    moreover have "0 \<le> ?z" by simp
    ultimately show ?thesis by linarith
  qed
  have b: "\<bar>7205759403792795 / 2 ^ 56 - 1351079888211149 / (3 * 2 ^ 52) :: real\<bar>
             \<le> \<bar>1351079888211149 / (3 * 2 ^ 52)\<bar> / 2 ^ 53 + 1 / 2 ^ 1075" (is "?l \<le> ?r + ?z")
  proof -
    have "?l \<le> ?r" by simp
    moreover have "0 \<le> ?z" by simp
    ultimately show ?thesis by linarith
  qed
  have "\<bar>rounding binary64_env x - x\<bar> \<le> \<bar>x\<bar> / 2 ^ 53 + 1 / 2 ^ 1075" for x
  proof -
    consider "x = 10808639105689191 / 2 ^ 55"
      | "x \<noteq> 10808639105689191 / 2 ^ 55" "x = 1351079888211149 / (3 * 2 ^ 52)"
      | "x \<noteq> 10808639105689191 / 2 ^ 55" "x \<noteq> 1351079888211149 / (3 * 2 ^ 52)" by blast
    then show ?thesis
    proof cases
      case 1
      have "rounding binary64_env x = 1351079888211149 / 2 ^ 52"
        unfolding binary64_env_def example_env_def 1 by simp
      then show ?thesis using a unfolding 1 by simp
    next
      case 2
      have "rounding binary64_env x = 7205759403792795 / 2 ^ 56"
        unfolding binary64_env_def example_env_def 2(2) by simp
      then show ?thesis using b unfolding 2(2) by simp
    next
      case 3
      then have "rounding binary64_env x = x"
        by (simp add: binary64_env_def example_env_def)
      then show ?thesis by simp
    qed
  qed
  then show ?thesis by (simp add: double_rounding_def)
qed

lemma snaps_close: "snaps e (sheet_with close_points) = close_points"
  by (simp add: sheet_with_def initial_sheet_def snaps_def uniqSorted_def Array_from_Set_def
      Array_sort_def js_sort_def clamp01r_def close_points_def)

lemma roundtrip_unmounted:
  assumes "offsetHeight e = None \<or> offsetHeight e = Some 0" and "rounding e = (\<lambda>x. x)"
  shows "currentSnapIndex e (snapToIndex e (Finite (real 2)) True (dragged_sheet 0 (Finite 0))) = 0"
proof -
  let ?s' = "snapToIndex e (Finite (real 2)) True (dragged_sheet 0 (Finite 0))"
  have h: "height_or 0 e = 0" "height_or 1 e = 1" using assms(1) by (auto simp: height_or_def)
  have "translateY ?s' = Finite 0"
    by (simp add: snapToIndex_def Let_def emit_def translateY_snapTo snaps_three_point
        ToInt32_def h assms(2))
  moreover have "snaps e ?s' = [Finite 0, Finite (1/2), Finite 1]"
    by (simp add: snaps_snapToIndex snaps_three_point)
  ultimately show ?thesis
    by (simp add: currentSnapIndex_def Let_def h assms(2) nearest_index_def clamp01r_def)
qed

lemma roundtrip_binary64:
  "translateY (snapToIndex binary64_env (Finite (real 0)) True (sheet_with close_points))
     = Finite (1351079888211149 / 2 ^ 52) \<and>
   currentSnapIndex binary64_env
     (snapToIndex binary64_env (Finite (real 0)) True (sheet_with close_points)) = 1"
  by (simp add: snapToIndex_def Let_def ToInt32_def emit_def snapTo_def snaps_close
      currentSnapIndex_def binary64_env_def example_env_def height_or_def nearest_index_def
      clamp01r_def)
    (simp add: close_points_def snaps_def sheet_with_def initial_sheet_def uniqSorted_def
      Array_from_Set_def Array_sort_def js_sort_def clamp01r_def)

text \<open>The rounding error of a result of moderate size is below \<open>(|x| + 1) / 2^53\<close>.\<close>

lemma rounding_error:
  assumes "double_rounding rnd" "\<bar>x\<bar> \<le> 2 ^ 31"
  shows "\<bar>rnd x - x\<bar> \<le> (\<bar>x\<bar> + 1) / 2 ^ 53"
proof -
  have "(2::real) ^ 31 \<le> 2 ^ 1023" by (rule power_increasing) simp_all
  then have "\<bar>x\<bar> \<le> 2 ^ 1023" using assms(2) by linarith
  then have e: "\<bar>rnd x - x\<bar> \<le> \<bar>x\<bar> / 2 ^ 53 + 1 / 2 ^ 1075"
    using assms(1) by (simp add: double_rounding_def)
  have "(2::real) ^ 53 \<le> 2 ^ 1075" by (rule power_increasing) simp_all
  then have "1 / (2::real) ^ 1075 \<le> 1 / 2 ^ 53"
    by (intro divide_left_mono) simp_all
  then show ?thesis using e by (simp add: add_divide_distrib)
qed




text \<open>
  Claim C7, as the code has it. On a mounted sheet of positive height (below \<open>2^31\<close>
  pixels), on a machine that rounds as doubles do, and with a snap set free of \<^verbatim>\<open>NaN\<close>
  whose points are at least \<open>2^-48\<close> apart: after \<open>snapToIndex\<close> with a valid index \<open>i\<close> of
  the snap set, \<open>currentSnapIndex\<close> reads \<open>i\<close> back, with or without animation. (The snap
  set is within the range of \<^verbatim>\<open>index | 0\<close>, that is at most \<open>2^31\<close> long.)
\<close>

theorem snapToIndex_roundtrip:
  assumes rnd: "double_rounding (rounding e)"
    and h: "offsetHeight e = Some h" "0 < h" "h < 2 ^ 31"
    and fin: "snaps e s = map Finite rs"
    and sep: "apart (1 / 2 ^ 48) rs"
    and i: "i < length rs" "length rs \<le> 2 ^ 31"
  shows "currentSnapIndex e (snapToIndex e (Finite (real i)) animate s) = i"
proof -
  define u :: real where "u = 1 / 2 ^ 53"
  define p where "p = rs ! i"
  define H where "H = real h"
  define T where "T = rounding e (p * H)"
  define q0 where "q0 = rounding e (T / H)"
  define q where "q = clamp01r q0"
  let ?s' = "snapToIndex e (Finite (real i)) animate s"
  have upos: "0 < u" by (simp add: u_def)
  have g: "1 / (2::real) ^ 48 = 32 * u" by (simp add: u_def)
  have err: "\<bar>rounding e x - x\<bar> \<le> (\<bar>x\<bar> + 1) * u" if "\<bar>x\<bar> \<le> 2 ^ 31" for x
    using rounding_error [OF rnd that] by (simp add: u_def)
  have unit: "0 \<le> r \<and> r \<le> 1" if "r \<in> set rs" for r
    using snaps_Finite_unit [OF fin that] .
  have p01: "0 \<le> p" "p \<le> 1" using unit [of p] i(1) by (simp_all add: p_def)
  have hr: "1 \<le> H" "H < 2 ^ 31"
    using h(2,3) by (simp_all add: H_def of_nat_less_numeral_power_cancel_iff)
  have i31: "i < 2 ^ 31" using i by simp
  have idx: "max 0 (min (int (length rs) - 1) (ToInt32 (Finite (real i)))) = int i"
    using i(1) by (simp add: ToInt32_small [OF i31])
  have h0: "height_or 0 e = H" and h1: "height_or 1 e = H"
    using h(1,2) by (simp_all add: height_or_def H_def)
  have ty: "translateY ?s' = Finite T"
    using p01 i(1) fin
    by (simp add: snapToIndex_def Let_def idx emit_def translateY_snapTo h0 clamp01r_id T_def p_def)
  have sn: "snaps e ?s' = map Finite rs" by (simp add: snaps_snapToIndex fin)
  \<comment> \<open>the offset, and the progress read back from it\<close>
  have ph: "\<bar>p * H\<bar> \<le> 2 ^ 31"
  proof -
    have "p * H \<le> 1 * H" using p01 hr by (intro mult_right_mono) simp_all
    moreover have "0 \<le> p * H" using p01 hr by simp
    ultimately show ?thesis using hr by linarith
  qed
  have T1: "\<bar>T - p * H\<bar> \<le> (p * H + 1) * u"
    using err [OF ph] p01 hr by (simp add: T_def)
  have "\<bar>T / H - p\<bar> = \<bar>T - p * H\<bar> / H"
    using hr by (simp add: field_simps)
  also have "\<dots> \<le> ((p * H + 1) * u) / H"
    using T1 hr by (intro divide_right_mono) simp_all
  also have "\<dots> = (p + 1 / H) * u" using hr by (simp add: field_simps)
  also have "\<dots> \<le> 2 * u"
  proof -
    have "1 / H \<le> 1" using hr by simp
    then have "p + 1 / H \<le> 2" using p01 by simp
    then show ?thesis using upos by simp
  qed
  finally have T2: "\<bar>T / H - p\<bar> \<le> 2 * u" .
  have u1: "u \<le> 1 / 2" by (simp add: u_def)
  have Th: "\<bar>T / H\<bar> \<le> 2" using T2 p01 u1 by linarith
  then have "\<bar>T / H\<bar> \<le> 2 ^ 31" by simp
  from err [OF this] have "\<bar>q0 - T / H\<bar> \<le> 3 * u"
  proof -
    assume "\<bar>rounding e (T / H) - T / H\<bar> \<le> (\<bar>T / H\<bar> + 1) * u"
    moreover have "(\<bar>T / H\<bar> + 1) * u \<le> 3 * u" using Th upos by simp
    ultimately show ?thesis by (simp add: q0_def)
  qed
  then have q0p: "\<bar>q0 - p\<bar> \<le> 5 * u" using T2 by linarith
  have qp: "\<bar>q - p\<bar> \<le> 5 * u"
    using q0p p01 unfolding q_def clamp01r_def by linarith
  have q01: "0 \<le> q" "q \<le> 1" using clamp01r_range [of q0] by (simp_all add: q_def)
  have pr: "clamp01 (js_over (rounding e) (translateY ?s') (H)) = Finite q"
    using hr by (simp add: ty q_def q0_def)
  \<comment> \<open>the distances of the scan\<close>
  define D where "D j = \<bar>rounding e (rs ! j - q)\<bar>" for j
  have dist: "js_abs (js_minus (rounding e) (map Finite rs ! j) (Finite q)) = Finite (D j)"
    if "j < length (map Finite rs)" for j
    using that by (simp add: D_def)
  have rerr: "\<bar>rounding e (r - q) - (r - q)\<bar> \<le> 2 * u" if "0 \<le> r" "r \<le> 1" for r
  proof -
    have a: "\<bar>r - q\<bar> \<le> 1" using that q01 by linarith
    then have "\<bar>r - q\<bar> \<le> 2 ^ 31" by simp
    from err [OF this] have "\<bar>rounding e (r - q) - (r - q)\<bar> \<le> (\<bar>r - q\<bar> + 1) * u" .
    moreover have "(\<bar>r - q\<bar> + 1) * u \<le> 2 * u" using a upos by simp
    ultimately show ?thesis by linarith
  qed
  have Di: "D i \<le> 7 * u"
    using rerr [OF p01] qp unfolding D_def p_def [symmetric] by linarith
  have Dj: "D i < D j" if "j < length (map Finite rs)" "j \<noteq> i" for j
  proof -
    have jl: "j < length rs" using that by simp
    have "rs ! j \<in> set rs" using jl by simp
    then have r01: "0 \<le> rs ! j" "rs ! j \<le> 1" using unit by simp_all
    have "1 / 2 ^ 48 \<le> \<bar>rs ! j - rs ! i\<bar>" using sep jl i(1) that(2) unfolding apart_def by blast
    then have "32 * u \<le> \<bar>rs ! j - p\<bar>" unfolding g p_def .
    then have "27 * u \<le> \<bar>rs ! j - q\<bar>" using qp by linarith
    then have "25 * u \<le> D j" using rerr [OF r01] unfolding D_def by linarith
    then show ?thesis using Di upos by linarith
  qed
  have "nearest_index (\<lambda>sp. js_abs (js_minus (rounding e) sp (Finite q))) (map Finite rs) = i"
    using i(1) dist Dj by (intro nearest_index_least [where D = D]) simp_all
  then show ?thesis
    using hr by (simp add: currentSnapIndex_def Let_def h1 sn pr)
qed

theorem snapToIndex_roundtrip_witness:
  "double_rounding (rounding (example_env 400)) \<and>
   offsetHeight (example_env 400) = Some 400 \<and> (0::nat) < 400 \<and> (400::nat) < 2 ^ 31 \<and>
   snaps (example_env 400) (dragged_sheet 0 (Finite 0)) = map Finite [0, 1/2, 1] \<and>
   apart (1 / 2 ^ 48) [0, 1/2, 1] \<and>
   (1::nat) < length [0, 1/2, 1 :: real] \<and> length [0, 1/2, 1 :: real] \<le> 2 ^ 31 \<and>
   currentSnapIndex (example_env 400)
     (snapToIndex (example_env 400) (Finite (real 1)) True (dragged_sheet 0 (Finite 0))) = 1"
  using snapToIndex_roundtrip [of "example_env 400" 400 "dragged_sheet 0 (Finite 0)" "[0, 1/2, 1]" 1 True]
    apart_three
  by (simp add: snaps_three_point example_env_def double_rounding_exact)

text \<open>
  The claim as stated fails in two ways. Before the element is mounted, or while its
  height is 0, every snap point is stored as offset 0, and index 2 of \<open>[0, 0.5, 1]\<close> reads
  back as 0. On a sheet 3 pixels high with the snap points \<^verbatim>\<open>0.1\<close> and
  \<^verbatim>\<open>0.10000000000000002\<close>, setting index 0 stores the offset \<^verbatim>\<open>0.30000000000000004\<close>,
  whose quotient by 3 is the second point: index 1 is read back.
\<close>

theorem snapToIndex_roundtrip_counterexample:
  "(2::nat) < length (snaps unmounted_env (dragged_sheet 0 (Finite 0))) \<and>
   currentSnapIndex unmounted_env
     (snapToIndex unmounted_env (Finite (real 2)) True (dragged_sheet 0 (Finite 0))) = 0 \<and>
   (2::nat) < length (snaps (example_env 0) (dragged_sheet 0 (Finite 0))) \<and>
   currentSnapIndex (example_env 0)
     (snapToIndex (example_env 0) (Finite (real 2)) True (dragged_sheet 0 (Finite 0))) = 0 \<and>
   double_rounding (rounding binary64_env) \<and>
   offsetHeight binary64_env = Some 3 \<and>
   snaps binary64_env (sheet_with close_points) = close_points \<and>
   (0::nat) < length close_points \<and>
   translateY (snapToIndex binary64_env (Finite (real 0)) True (sheet_with close_points))
     = Finite (1351079888211149 / 2 ^ 52) \<and>
   currentSnapIndex binary64_env
     (snapToIndex binary64_env (Finite (real 0)) True (sheet_with close_points)) = 1"
proof -
  have "currentSnapIndex unmounted_env
     (snapToIndex unmounted_env (Finite (real 2)) True (dragged_sheet 0 (Finite 0))) = 0"
    by (rule roundtrip_unmounted) (simp_all add: unmounted_env_def example_env_def)
  moreover have "currentSnapIndex (example_env 0)
     (snapToIndex (example_env 0) (Finite (real 2)) True (dragged_sheet 0 (Finite 0))) = 0"
    by (rule roundtrip_unmounted) (simp_all add: example_env_def)
  moreover have "offsetHeight binary64_env = Some 3"
    by (simp add: binary64_env_def example_env_def)
  moreover have "(0::nat) < length close_points" by (simp add: close_points_def)
  ultimately show ?thesis
    using roundtrip_binary64 double_rounding_binary64
    by (simp add: snaps_three_point snaps_close)
qed



subsection \<open>Close and requestClose\<close>

text \<open>
  Claim C1, as the code has it. \<open>close\<close> does not test \<open>isOpen\<close>: in every state, closed
  or not, it leaves the sheet closed and emits one \<^verbatim>\<open>close\<close> event. Called on a sheet that
  a first \<open>close\<close> has just closed, it leaves every variable as the first call left it
  (the counter is not decremented again) and emits a second \<^verbatim>\<open>close\<close> event: two calls in
  a row give two events.
\<close>

theorem close_twice:
  "\<not> isOpen (close r s) \<and>
   events (close r s) = events s @ [EvClose r] \<and>
   close r2 (close r1 s) = (close r1 s)\<lparr>events := events s @ [EvClose r1, EvClose r2]\<rparr>"
  by (simp add: close_def emit_def)

theorem close_twice_witness:
  "close Esc (close Programmatic (open_sheet (initial_sheet default_config))) =
     (close Programmatic (open_sheet (initial_sheet default_config)))
       \<lparr>events := [EvClose Programmatic, EvClose Esc]\<rparr>"
  using close_twice [of Esc "open_sheet (initial_sheet default_config)" Esc Programmatic]
  by (simp add: open_sheet_def requestAnimationFrame_def initial_sheet_def)

text \<open>
  The claim as stated fails: the sheet is closed after one \<open>close\<close>, and the second
  \<open>close\<close> adds a second event.
\<close>

theorem close_twice_counterexample:
  "\<not> isOpen (close Programmatic (open_sheet (initial_sheet default_config))) \<and>
   events (close Programmatic (open_sheet (initial_sheet default_config))) = [EvClose Programmatic] \<and>
   events (close Programmatic (close Programmatic (open_sheet (initial_sheet default_config))))
     = [EvClose Programmatic, EvClose Programmatic]"
  by (simp add: close_def emit_def open_sheet_def requestAnimationFrame_def initial_sheet_def)

text \<open>
  Claim C5. When the confirmation hook resolves to \<^verbatim>\<open>false\<close> or throws, \<open>requestClose\<close>
  returns the state it was given: the sheet stays as it is, the offset and the overdrag are
  untouched and no event is emitted.
\<close>

theorem requestClose_denied:
  assumes "onBeforeClose cfg = Some hook"
    and "hook reason = Resolves False \<or> hook reason = Throws"
  shows "requestClose cfg reason s = s"
  using assms by (auto simp: requestClose_def)

theorem requestClose_denied_witness:
  "onBeforeClose (default_config\<lparr>onBeforeClose := Some (\<lambda>r. Resolves False)\<rparr>) = Some (\<lambda>r. Resolves False) \<and>
   ((\<lambda>r. Resolves False) Esc = Resolves False \<or> (\<lambda>r. Resolves False) Esc = Throws) \<and>
   isOpen (requestClose (default_config\<lparr>onBeforeClose := Some (\<lambda>r. Resolves False)\<rparr>) Esc
            (open_sheet (initial_sheet default_config))) \<and>
   events (requestClose (default_config\<lparr>onBeforeClose := Some (\<lambda>r. Resolves False)\<rparr>) Esc
            (open_sheet (initial_sheet default_config))) = []"
  using requestClose_denied [of "default_config\<lparr>onBeforeClose := Some (\<lambda>r. Resolves False)\<rparr>"
      "\<lambda>r. Resolves False" Esc "open_sheet (initial_sheet default_config)"]
  by (simp add: open_sheet_def requestAnimationFrame_def initial_sheet_def)

subsection \<open>Dragging\<close>






lemma pending_snapToIndex: "pending (snapToIndex e i a s) = pending s"
  by (simp add: snapToIndex_def Let_def emit_def snapTo_def)

lemma pending_close: "pending (close r s) = pending s"
  by (simp add: close_def emit_def)

lemma run_task_spawn:
  "\<exists>sp. pending (run_task cfg e t s) = pending s @ sp \<and> list_all is_leaf sp \<and>
        length sp \<le> 1 \<and> (is_leaf t \<longrightarrow> sp = []) \<and>
        (\<forall>r h. t = RafCloseAnimated r h \<longrightarrow> sp = [CloseAnimatedDone r])"
proof (cases t)
  case RafPerformOpen
  then show ?thesis
    by (cases "openAnimation cfg")
      (auto simp: performOpenAnimation_def Let_def requestAnimationFrame_def pending_snapToIndex)
next
  case (RafSnapToIndex i a)
  then show ?thesis by (simp add: pending_snapToIndex)
next
  case (RafCloseAnimated r h)
  then show ?thesis by simp
next
  case (CloseAnimatedDone r)
  then show ?thesis by (simp add: pending_close)
qed

lemma drain_done: "pending s = [] \<Longrightarrow> drain n cfg e s = s"
  by (cases n) simp_all

lemma drain_add: "drain (m + n) cfg e s = drain n cfg e (drain m cfg e s)"
proof (induction m arbitrary: s)
  case 0
  then show ?case by simp
next
  case (Suc m)
  show ?case
  proof (cases "pending s")
    case Nil
    then show ?thesis by (simp add: drain_done)
  next
    case (Cons t ts)
    then show ?thesis using Suc.IH by simp
  qed
qed

lemma drain_round:
  "pending s = ts @ rest \<Longrightarrow>
   \<exists>sp. pending (drain (length ts) cfg e s) = rest @ sp \<and> list_all is_leaf sp \<and>
        length sp \<le> length ts \<and>
        (\<forall>r h. ts \<noteq> [] \<and> last ts = RafCloseAnimated r h \<longrightarrow> sp \<noteq> [] \<and> last sp = CloseAnimatedDone r)"
proof (induction ts arbitrary: s rest)
  case Nil
  then show ?case by simp
next
  case (Cons t ts)
  let ?s1 = "run_task cfg e t (s\<lparr>pending := ts @ rest\<rparr>)"
  obtain sp0 where sp0: "pending ?s1 = (ts @ rest) @ sp0" "list_all is_leaf sp0"
      "is_leaf t \<longrightarrow> sp0 = []" "\<forall>r h. t = RafCloseAnimated r h \<longrightarrow> sp0 = [CloseAnimatedDone r]"
      and len0: "length sp0 \<le> 1"
    using run_task_spawn [of cfg e t "s\<lparr>pending := ts @ rest\<rparr>"] by auto
  have "pending ?s1 = ts @ (rest @ sp0)" using sp0(1) by simp
  from Cons.IH [OF this]
  obtain sp1 where sp1: "pending (drain (length ts) cfg e ?s1) = (rest @ sp0) @ sp1"
      "list_all is_leaf sp1" "length sp1 \<le> length ts"
      "\<forall>r h. ts \<noteq> [] \<and> last ts = RafCloseAnimated r h \<longrightarrow> sp1 \<noteq> [] \<and> last sp1 = CloseAnimatedDone r"
    by auto
  have d: "drain (length (t # ts)) cfg e s = drain (length ts) cfg e ?s1"
    using Cons.prems by simp
  have nil: "sp1 = []" if "ts = []"
    using sp1(3) that by simp
  show ?case
  proof (intro exI [of _ "sp0 @ sp1"] conjI allI impI)
    show "pending (drain (length (t # ts)) cfg e s) = rest @ sp0 @ sp1"
      using d sp1(1) by simp
    show "list_all is_leaf (sp0 @ sp1)" using sp0(2) sp1(2) by simp
    show "length (sp0 @ sp1) \<le> length (t # ts)" using len0 sp1(3) by simp
  next
    fix r h assume a: "t # ts \<noteq> [] \<and> last (t # ts) = RafCloseAnimated r h"
    show "sp0 @ sp1 \<noteq> []"
    proof (cases "ts = []")
      case True
      then show ?thesis using a sp0(4) by simp
    next
      case False
      then show ?thesis using a sp1(4) by simp
    qed
    show "last (sp0 @ sp1) = CloseAnimatedDone r"
    proof (cases "ts = []")
      case True
      then show ?thesis using a sp0(4) nil by simp
    next
      case False
      then show ?thesis using a sp1(4) by simp
    qed
  qed
qed

lemma drain_leaves:
  "pending s = ls \<Longrightarrow> list_all is_leaf ls \<Longrightarrow>
   pending (drain (length ls) cfg e s) = [] \<and>
   (ls \<noteq> [] \<and> last ls = CloseAnimatedDone r \<longrightarrow>
      \<not> isOpen (drain (length ls) cfg e s) \<and>
      events (drain (length ls) cfg e s) \<noteq> [] \<and>
      last (events (drain (length ls) cfg e s)) = EvClose r)"
proof (induction ls arbitrary: s)
  case Nil
  then show ?case by simp
next
  case (Cons t ls)
  let ?s1 = "run_task cfg e t (s\<lparr>pending := ls\<rparr>)"
  have leaf: "is_leaf t" and leaves: "list_all is_leaf ls" using Cons.prems(2) by simp_all
  have p1: "pending ?s1 = ls"
    using run_task_spawn [of cfg e t "s\<lparr>pending := ls\<rparr>"] leaf by auto
  have d: "drain (length (t # ls)) cfg e s = drain (length ls) cfg e ?s1"
    using Cons.prems(1) by simp
  note IH = Cons.IH [OF p1 leaves]
  show ?case
  proof (cases "ls = []")
    case True
    have "\<not> isOpen ?s1 \<and> events ?s1 \<noteq> [] \<and> last (events ?s1) = EvClose r"
      if "t = CloseAnimatedDone r"
      using that by (simp add: close_def emit_def)
    then show ?thesis using True d p1 by simp
  next
    case False
    then show ?thesis using IH d by simp
  qed
qed

lemma endDrag_fling_quiet:
  assumes "dragging s" and "isOpen s" and "pending s = []"
    and "js_gt (js_abs (vY s)) (flingVelocityPxPerMs cfg)" and "js_gt (vY s) 0"
    and "2 \<le> n"
  shows "pending (endDrag cfg e s) = [RafCloseAnimated Drag (height_or 0 e + openAnimationExtraPx cfg)] \<and>
         \<not> isOpen (drain n cfg e (endDrag cfg e s)) \<and>
         events (drain n cfg e (endDrag cfg e s)) = events s @ [EvClose Drag] \<and>
         pending (drain n cfg e (endDrag cfg e s)) = []"
proof -
  obtain m where n: "n = Suc (Suc m)"
    using assms(6) by (metis Suc_le_D numeral_2_eq_2 Suc_le_mono)
  let ?h = "height_or 0 e + openAnimationExtraPx cfg"
  let ?s1 = "s\<lparr>dragging := False, overUp := Finite 0\<rparr>"
  have ed: "endDrag cfg e s =
      cleanupGesture (requestAnimationFrame (RafCloseAnimated Drag ?h) (?s1\<lparr>isAnimating := True\<rparr>))"
    using assms(1,2,4,5) by (simp add: endDrag_def Let_def closeAnimated_def)
  have p1: "pending (endDrag cfg e s) = [RafCloseAnimated Drag ?h]"
    using assms(3) by (simp add: ed cleanupGesture_def requestAnimationFrame_def)
  have d2: "drain m cfg e t = t" if "pending t = []" for t
    using that by (cases m) simp_all
  have "drain n cfg e (endDrag cfg e s) =
        close Drag ((endDrag cfg e s)\<lparr>translateY := Finite ?h, pending := [], isAnimating := False\<rparr>)"
    by (simp add: n p1 d2 close_def emit_def)
  then show ?thesis
    using p1 by (simp add: close_def emit_def ed cleanupGesture_def requestAnimationFrame_def)
qed

lemma drain_close_scheduled:
  assumes "pending s0 = q @ [RafCloseAnimated r hh]" and "2 * length q + 2 \<le> n"
  shows "pending (drain n cfg e s0) = [] \<and> \<not> isOpen (drain n cfg e s0) \<and>
         events (drain n cfg e s0) \<noteq> [] \<and> last (events (drain n cfg e s0)) = EvClose r"
proof -
  let ?ts = "q @ [RafCloseAnimated r hh]"
  have "pending s0 = ?ts @ []" using assms(1) by simp
  from drain_round [OF this, of cfg e]
  obtain sp where sp: "pending (drain (length ?ts) cfg e s0) = sp" "list_all is_leaf sp"
      "length sp \<le> length ?ts" "sp \<noteq> []" "last sp = CloseAnimatedDone r"
    by auto
  let ?s1 = "drain (length ?ts) cfg e s0"
  let ?s2 = "drain (length sp) cfg e ?s1"
  have fin: "pending ?s2 = [] \<and> \<not> isOpen ?s2 \<and> events ?s2 \<noteq> [] \<and> last (events ?s2) = EvClose r"
    using drain_leaves [OF sp(1) sp(2), of cfg e r] sp(4,5) by simp
  have "length ?ts + length sp \<le> n" using sp(3) assms(2) by simp
  then obtain k where n: "n = (length ?ts + length sp) + k"
    using le_Suc_ex by blast
  have "drain n cfg e s0 = drain k cfg e ?s2"
    unfolding n by (simp only: drain_add)
  also have "\<dots> = ?s2" using fin by (simp add: drain_done)
  finally show ?thesis using fin by simp
qed

text \<open>
  Claim C2, as the code has it. Take snap points \<open>[0, 0.5, 1]\<close>, the default options, a
  mounted sheet of positive height (below \<open>2^31\<close> pixels), a machine that rounds as doubles
  do, and a drag released at \<open>0.6 \<times> sheetHeight\<close> without a closing fling. When the sheet
  is at most 200 pixels high, that is when the offset does not exceed the close threshold
  \<open>max 120 (0.25 \<times> sheetHeight)\<close>, the release snaps to 0.5: the offset becomes
  \<open>0.5 \<times> sheetHeight\<close> (rounded), the events added are \<^verbatim>\<open>dragEnd{closed: false}\<close> and
  \<^verbatim>\<open>snap{index: 1, progress: 0.5}\<close>, and no close is scheduled. When the sheet is taller
  than 200 pixels and open, the release adds \<^verbatim>\<open>dragEnd{closed: true}\<close> and no \<^verbatim>\<open>snap\<close>, and
  schedules the animated close: once the scheduled callbacks have run, the sheet is closed
  and the last event is the \<^verbatim>\<open>close\<close> of reason \<^verbatim>\<open>drag\<close>.
\<close>

theorem endDrag_scenario_A:
  assumes rnd: "double_rounding (rounding e)"
    and pts: "snapPointsRef s = [Finite 0, Finite (1/2), Finite 1]"
    and drag: "dragging s"
    and h: "offsetHeight e = Some h" "0 < h" "h < 2 ^ 31"
    and ty: "translateY s = Finite (0.6 * real h)"
    and nofling: "\<not> (js_gt (js_abs (vY s)) (flingVelocityPxPerMs default_config) \<and> js_gt (vY s) 0)"
  shows "(h \<le> 200 \<longrightarrow>
            translateY (endDrag default_config e s) = Finite (rounding e (1/2 * real h)) \<and>
            events (endDrag default_config e s) = events s @ [EvDragEnd False, EvSnap 1 (Finite (1/2))] \<and>
            isOpen (endDrag default_config e s) = isOpen s \<and>
            pending (endDrag default_config e s) = pending s \<and>
            isAnimating (endDrag default_config e s)) \<and>
         (200 < h \<and> isOpen s \<longrightarrow>
            events (endDrag default_config e s) = events s @ [EvDragEnd True] \<and>
            pending (endDrag default_config e s) = pending s @ [RafCloseAnimated Drag (real h + 120)] \<and>
            (\<forall>n. 2 * length (pending s) + 2 \<le> n \<longrightarrow>
               \<not> isOpen (drain n default_config e (endDrag default_config e s)) \<and>
               last (events (drain n default_config e (endDrag default_config e s))) = EvClose Drag))"
proof (intro conjI impI)
  define H where "H = real h"
  have hr: "1 \<le> H" "H < 2 ^ 31"
    using h(2,3) by (simp_all add: H_def of_nat_less_numeral_power_cancel_iff)
  have h0: "height_or 0 e = H" using h(1,2) by (simp add: height_or_def H_def)
  have tyH: "translateY s = Finite (3/5 * H)" using ty by (simp add: H_def)
  have err: "\<bar>rounding e x - x\<bar> \<le> (\<bar>x\<bar> + 1) / 2 ^ 53" if "\<bar>x\<bar> \<le> 2 ^ 31" for x
    using rounding_error [OF rnd that] .
  have small: "\<bar>rounding e x - x\<bar> \<le> 1 / 100" if "\<bar>x\<bar> \<le> 1" for x
  proof -
    have "\<bar>x\<bar> \<le> 2 ^ 31" using that by simp
    from err [OF this] have "\<bar>rounding e x - x\<bar> \<le> (\<bar>x\<bar> + 1) / 2 ^ 53" .
    moreover have "(\<bar>x\<bar> + 1) / 2 ^ 53 \<le> 2 / 2 ^ 53"
      using that by (intro divide_right_mono) simp_all
    ultimately show ?thesis by simp
  qed
  let ?s1 = "s\<lparr>dragging := False, overUp := Finite 0\<rparr>"
  have sn: "snaps e ?s1 = map Finite [0, 1/2, 1]"
    using pts by (simp add: snaps_def uniqSorted_def Array_from_Set_def Array_sort_def
        js_sort_def clamp01r_def)
  define P where "P = rounding e (3/5)"
  have P: "\<bar>P - 3/5\<bar> \<le> 1 / 100" using small [of "3/5"] by (simp add: P_def)
  have pq: "js_over (rounding e) (translateY s) H = Finite P"
    using hr by (simp add: tyH P_def)
  { assume short: "h \<le> 200"
    then have Hs: "H \<le> 200" by (simp add: H_def)
    have thr: "\<not> js_gt (translateY s) (max (closeThresholdPx default_config)
                  (rounding e (H * closeThresholdRatio default_config)))"
      using Hs by (simp add: tyH default_config_def)
    define D where "D j = \<bar>rounding e (P - [0, 1/2, 1] ! j)\<bar>" for j :: nat
    have dist: "js_abs (js_minus (rounding e) (Finite P) (map Finite [0, 1/2, 1] ! j)) = Finite (D j)"
      if jl: "j < length (map Finite [0, 1/2, 1::real])" for j
    proof -
      have "map Finite [0, 1/2, 1::real] ! j = Finite ([0, 1/2, 1] ! j)"
        using jl by (simp only: length_map nth_map)
      then show ?thesis by (simp only: js_minus.simps js_abs.simps D_def)
    qed
    have dv: "D 0 = \<bar>rounding e P\<bar>" "D 1 = \<bar>rounding e (P - 1/2)\<bar>"
        "D 2 = \<bar>rounding e (P - 1)\<bar>"
      by (simp_all add: D_def)
    have D1: "D 1 \<le> 12 / 100"
    proof -
      have a: "\<bar>P - 1/2\<bar> \<le> 11 / 100" using P by linarith
      then have "\<bar>P - 1/2\<bar> \<le> 1" by linarith
      then have "\<bar>rounding e (P - 1/2) - (P - 1/2)\<bar> \<le> 1 / 100" by (rule small)
      then show ?thesis using a unfolding dv by linarith
    qed
    have D0: "58 / 100 \<le> D 0"
    proof -
      have "\<bar>P\<bar> \<le> 1" using P by linarith
      then have "\<bar>rounding e P - P\<bar> \<le> 1 / 100" by (rule small)
      then show ?thesis using P unfolding dv by linarith
    qed
    have D2: "38 / 100 \<le> D 2"
    proof -
      have "\<bar>P - 1\<bar> \<le> 1" using P by linarith
      then have "\<bar>rounding e (P - 1) - (P - 1)\<bar> \<le> 1 / 100" by (rule small)
      then show ?thesis using P unfolding dv by linarith
    qed
    have least: "D 1 < D j" if "j < length (map Finite [0, 1/2, 1::real])" "j \<noteq> 1" for j
    proof -
      have "j = 0 \<or> j = 2" using that by auto
      then show ?thesis using D0 D1 D2 by auto
    qed
    have ni: "nearest_index (\<lambda>sp. js_abs (js_minus (rounding e) (Finite P) sp)) (map Finite [0, 1/2, 1]) = 1"
      using dist least by (intro nearest_index_least [where D = D]) simp_all
    then have ni: "nearest_index (\<lambda>sp. js_abs (js_minus (rounding e) (Finite P) sp))
                     [Finite 0, Finite (1/2), Finite 1] = 1"
      by simp
    have "endDrag default_config e s =
          cleanupGesture (emit (EvSnap 1 (Finite (1/2))) (emit (EvDragEnd False)
            (snapTo e (Finite (1/2)) True (?s1\<lparr>isAnimating := True\<rparr>))))"
      using hr
      by (simp add: endDrag_def Let_def h0 sn pq ni drag nofling thr del: js_gt.simps)
    then have "translateY (endDrag default_config e s) = Finite (rounding e (1/2 * H)) \<and>
          events (endDrag default_config e s) = events s @ [EvDragEnd False, EvSnap 1 (Finite (1/2))] \<and>
          isOpen (endDrag default_config e s) = isOpen s \<and>
          pending (endDrag default_config e s) = pending s \<and>
          isAnimating (endDrag default_config e s)"
      by (simp add: cleanupGesture_def emit_def snapTo_def Let_def h0 clamp01r_def)
  }
  note short_case = this
  { assume "h \<le> 200"
    from short_case [OF this]
    show "translateY (endDrag default_config e s) = Finite (rounding e (1/2 * real h))"
      and "events (endDrag default_config e s) = events s @ [EvDragEnd False, EvSnap 1 (Finite (1/2))]"
      and "isOpen (endDrag default_config e s) = isOpen s"
      and "pending (endDrag default_config e s) = pending s"
      and "isAnimating (endDrag default_config e s)"
      by (simp_all add: H_def) }
  { assume tall: "200 < h \<and> isOpen s"
    then have Ht: "201 \<le> H" by (simp add: H_def)
    define Q where "Q = H * (1/4)"
    have Q0: "0 \<le> Q" "Q \<le> 2 ^ 31" using hr by (simp_all add: Q_def)
    have QH: "Q = H / 4" by (simp add: Q_def)
    have "\<bar>Q\<bar> \<le> 2 ^ 31" using Q0 by simp
    from err [OF this] have e1: "\<bar>rounding e Q - Q\<bar> \<le> (\<bar>Q\<bar> + 1) / 2 ^ 53" .
    have "(\<bar>Q\<bar> + 1) / 2 ^ 53 \<le> (\<bar>Q\<bar> + 1) / 1"
      by (intro divide_left_mono) simp_all
    then have e2: "(\<bar>Q\<bar> + 1) / 2 ^ 53 \<le> \<bar>Q\<bar> + 1" by simp
    have "\<bar>rounding e Q - Q\<bar> \<le> Q + 1" using e1 e2 Q0 by linarith
    then have "rounding e Q \<le> H / 2 + 1" using Q0 QH by linarith
    then have r4: "rounding e (H * (1/4)) \<le> H / 2 + 1" by (simp add: Q_def)
    have thr: "js_gt (translateY s) (max (closeThresholdPx default_config)
                  (rounding e (H * closeThresholdRatio default_config)))"
      using Ht r4 by (simp add: tyH default_config_def)
    have ed: "endDrag default_config e s =
          cleanupGesture (emit (EvDragEnd True)
            (requestAnimationFrame (RafCloseAnimated Drag (H + 120)) (?s1\<lparr>isAnimating := True\<rparr>)))"
      using tall
      by (simp add: endDrag_def Let_def h0 drag nofling thr closeAnimated_def del: js_gt.simps)
        (simp add: default_config_def)
    show "events (endDrag default_config e s) = events s @ [EvDragEnd True]"
      by (simp add: ed cleanupGesture_def emit_def requestAnimationFrame_def)
    show p: "pending (endDrag default_config e s) = pending s @ [RafCloseAnimated Drag (real h + 120)]"
      by (simp add: ed cleanupGesture_def emit_def requestAnimationFrame_def H_def)
    show "\<forall>n. 2 * length (pending s) + 2 \<le> n \<longrightarrow>
               \<not> isOpen (drain n default_config e (endDrag default_config e s)) \<and>
               last (events (drain n default_config e (endDrag default_config e s))) = EvClose Drag"
      using drain_close_scheduled [OF p] by blast }
qed

theorem endDrag_scenario_A_witness:
  "double_rounding (rounding (example_env 200)) \<and>
   snapPointsRef (dragged_sheet 120 (Finite 0)) = [Finite 0, Finite (1/2), Finite 1] \<and>
   dragging (dragged_sheet 120 (Finite 0)) \<and>
   offsetHeight (example_env 200) = Some 200 \<and> (0::nat) < 200 \<and> (200::nat) < 2 ^ 31 \<and>
   translateY (dragged_sheet 120 (Finite 0)) = Finite (0.6 * real 200) \<and>
   \<not> (js_gt (js_abs (vY (dragged_sheet 120 (Finite 0)))) (flingVelocityPxPerMs default_config) \<and>
      js_gt (vY (dragged_sheet 120 (Finite 0))) 0) \<and>
   (200::nat) \<le> 200 \<and>
   translateY (endDrag default_config (example_env 200) (dragged_sheet 120 (Finite 0))) = Finite 100 \<and>
   events (endDrag default_config (example_env 200) (dragged_sheet 120 (Finite 0)))
     = [EvDragEnd False, EvSnap 1 (Finite (1/2))] \<and>
   offsetHeight (example_env 400) = Some 400 \<and> (200::nat) < 400 \<and>
   isOpen (dragged_sheet 240 (Finite 0)) \<and>
   translateY (dragged_sheet 240 (Finite 0)) = Finite (0.6 * real 400) \<and>
   events (endDrag default_config (example_env 400) (dragged_sheet 240 (Finite 0))) = [EvDragEnd True] \<and>
   \<not> isOpen (drain 2 default_config (example_env 400)
            (endDrag default_config (example_env 400) (dragged_sheet 240 (Finite 0))))"
  using endDrag_scenario_A [of "example_env 200" "dragged_sheet 120 (Finite 0)" 200]
    endDrag_scenario_A [of "example_env 400" "dragged_sheet 240 (Finite 0)" 400]
  by (simp add: dragged_sheet_def initial_sheet_def three_point_config_def example_env_def
      default_config_def double_rounding_exact)

text \<open>
  The claim as stated fails on a sheet 400 pixels high: the offset 240 exceeds the
  threshold 120, the release emits \<^verbatim>\<open>dragEnd{closed: true}\<close> and no \<^verbatim>\<open>snap\<close>, and the
  scheduled callbacks close the sheet with reason \<^verbatim>\<open>drag\<close>.
\<close>

theorem endDrag_scenario_A_counterexample:
  "snapPointsRef (dragged_sheet 240 (Finite 0)) = [Finite 0, Finite (1/2), Finite 1] \<and>
   dragging (dragged_sheet 240 (Finite 0)) \<and> isOpen (dragged_sheet 240 (Finite 0)) \<and>
   translateY (dragged_sheet 240 (Finite 0)) = Finite (0.6 * real 400) \<and>
   offsetHeight (example_env 400) = Some 400 \<and>
   vY (dragged_sheet 240 (Finite 0)) = Finite 0 \<and>
   events (endDrag default_config (example_env 400) (dragged_sheet 240 (Finite 0))) = [EvDragEnd True] \<and>
   pending (endDrag default_config (example_env 400) (dragged_sheet 240 (Finite 0)))
     = [RafCloseAnimated Drag 520] \<and>
   events (drain 2 default_config (example_env 400)
            (endDrag default_config (example_env 400) (dragged_sheet 240 (Finite 0))))
     = [EvDragEnd True, EvClose Drag] \<and>
   \<not> isOpen (drain 2 default_config (example_env 400)
            (endDrag default_config (example_env 400) (dragged_sheet 240 (Finite 0))))"
  by (simp add: endDrag_def Let_def dragged_sheet_def initial_sheet_def three_point_config_def
      example_env_def default_config_def height_or_def closeAnimated_def requestAnimationFrame_def
      cleanupGesture_def emit_def close_def numeral_2_eq_2)

text \<open>
  Claim C3. Releasing a drag on an open sheet with a velocity above the fling threshold in
  the closing direction schedules the animated close with reason \<^verbatim>\<open>drag\<close>, whatever the
  offset. Once the scheduled callbacks have run (two for each callback that was
  outstanding at the release, and two more), the sheet is closed and the last event emitted
  is the \<^verbatim>\<open>close\<close> of reason \<^verbatim>\<open>drag\<close>; with nothing outstanding at the release it is the
  only event added.
\<close>

theorem endDrag_fling:
  assumes "dragging s" and "isOpen s"
    and "js_gt (js_abs (vY s)) (flingVelocityPxPerMs cfg)" and "js_gt (vY s) 0"
    and "2 * length (pending s) + 2 \<le> n"
  shows "pending (endDrag cfg e s) =
           pending s @ [RafCloseAnimated Drag (height_or 0 e + openAnimationExtraPx cfg)] \<and>
         pending (drain n cfg e (endDrag cfg e s)) = [] \<and>
         \<not> isOpen (drain n cfg e (endDrag cfg e s)) \<and>
         events (drain n cfg e (endDrag cfg e s)) \<noteq> [] \<and>
         last (events (drain n cfg e (endDrag cfg e s))) = EvClose Drag \<and>
         (pending s = [] \<longrightarrow>
            events (drain n cfg e (endDrag cfg e s)) = events s @ [EvClose Drag])"
proof -
  let ?h = "height_or 0 e + openAnimationExtraPx cfg"
  let ?s0 = "endDrag cfg e s"
  let ?ts = "pending s @ [RafCloseAnimated Drag ?h]"
  have ed: "?s0 =
      cleanupGesture (requestAnimationFrame (RafCloseAnimated Drag ?h)
        (s\<lparr>dragging := False, overUp := Finite 0, isAnimating := True\<rparr>))"
    using assms(1-4) by (simp add: endDrag_def Let_def closeAnimated_def)
  have p0: "pending ?s0 = ?ts"
    by (simp add: ed cleanupGesture_def requestAnimationFrame_def)
  then have "pending ?s0 = ?ts @ []" by simp
  from drain_round [OF this, of cfg e]
  obtain sp where sp: "pending (drain (length ?ts) cfg e ?s0) = sp" "list_all is_leaf sp"
      "length sp \<le> length ?ts" "sp \<noteq> []" "last sp = CloseAnimatedDone Drag"
    by auto
  let ?s1 = "drain (length ?ts) cfg e ?s0"
  let ?s2 = "drain (length sp) cfg e ?s1"
  have fin: "pending ?s2 = [] \<and> \<not> isOpen ?s2 \<and> events ?s2 \<noteq> [] \<and> last (events ?s2) = EvClose Drag"
    using drain_leaves [OF sp(1) sp(2), of cfg e Drag] sp(4,5) by simp
  have "length ?ts + length sp \<le> n" using sp(3) assms(5) by simp
  then obtain k where n: "n = (length ?ts + length sp) + k"
    using le_Suc_ex by blast
  have "drain n cfg e ?s0 = drain k cfg e ?s2"
    unfolding n by (simp only: drain_add)
  also have "\<dots> = ?s2" using fin by (simp add: drain_done)
  finally have main: "drain n cfg e ?s0 = ?s2" .
  have quiet: "events (drain n cfg e ?s0) = events s @ [EvClose Drag]" if "pending s = []"
  proof -
    have "2 \<le> n" using assms(5) by simp
    then show ?thesis
      using endDrag_fling_quiet [OF assms(1,2) that assms(3,4), of n e] by simp
  qed
  show ?thesis using main fin p0 quiet by simp
qed

theorem endDrag_fling_witness:
  "dragging (dragged_sheet 10 (Finite 2)) \<and> isOpen (dragged_sheet 10 (Finite 2)) \<and>
   js_gt (js_abs (vY (dragged_sheet 10 (Finite 2)))) (flingVelocityPxPerMs default_config) \<and>
   js_gt (vY (dragged_sheet 10 (Finite 2))) 0 \<and>
   2 * length (pending (dragged_sheet 10 (Finite 2))) + 2 \<le> (2::nat) \<and>
   pending (dragged_sheet 10 (Finite 2)) = [] \<and>
   \<not> isOpen (drain 2 default_config (example_env 400)
              (endDrag default_config (example_env 400) (dragged_sheet 10 (Finite 2)))) \<and>
   events (drain 2 default_config (example_env 400)
             (endDrag default_config (example_env 400) (dragged_sheet 10 (Finite 2)))) = [EvClose Drag]"
  using endDrag_fling [of "dragged_sheet 10 (Finite 2)" default_config 2 "example_env 400"]
  by (simp add: dragged_sheet_def initial_sheet_def three_point_config_def default_config_def)

subsection \<open>Keydown registry\<close>






subsection \<open>Stacking counter\<close>

lemma open_sheet_stack:
  "stackIndex (open_sheet s) = Some (STACK_COUNT s + 1) \<and> STACK_COUNT (open_sheet s) = STACK_COUNT s + 1"
  by (simp add: open_sheet_def requestAnimationFrame_def)

lemma close_stack:
  "stackIndex (close r s) = None \<and>
   STACK_COUNT (close r s) = (if stackIndex s = None then STACK_COUNT s else max 0 (STACK_COUNT s - 1))"
  by (simp add: close_def emit_def)

lemma stack_inv_le: "stack_inv w \<Longrightarrow> i < length (insts w) \<Longrightarrow> held w i = Some k \<Longrightarrow> k \<le> count w"
  unfolding stack_inv_def by blast

lemma stack_inv_distinct:
  "stack_inv w \<Longrightarrow> i < length (insts w) \<Longrightarrow> j < length (insts w) \<Longrightarrow> i \<noteq> j \<Longrightarrow>
   held w i = Some k \<Longrightarrow> held w j \<noteq> Some k"
  unfolding stack_inv_def by blast

lemma length_on_instance: "length (insts (on_instance i f w)) = length (insts w)"
  by (simp add: on_instance_def Let_def)

lemma held_open:
  "j < length (insts w) \<Longrightarrow> i < length (insts w) \<Longrightarrow>
   held (on_instance i open_sheet w) j = (if j = i then Some (count w + 1) else held w j)"
  by (simp add: held_def on_instance_def Let_def open_sheet_stack nth_list_update)

lemma count_open:
  "i < length (insts w) \<Longrightarrow> count (on_instance i open_sheet w) = count w + 1"
  by (simp add: on_instance_def Let_def open_sheet_stack)

lemma held_close:
  "j < length (insts w) \<Longrightarrow> i < length (insts w) \<Longrightarrow>
   held (on_instance i (close r) w) j = (if j = i then None else held w j)"
  by (simp add: held_def on_instance_def Let_def close_stack nth_list_update)

lemma count_close:
  "i < length (insts w) \<Longrightarrow>
   count (on_instance i (close r) w) = (if held w i = None then count w else max 0 (count w - 1))"
  by (simp add: held_def on_instance_def Let_def close_stack)

lemma stack_inv_open:
  assumes inv: "stack_inv w"
  shows "stack_inv (on_instance i open_sheet w)"
proof (cases "i < length (insts w)")
  case False
  then show ?thesis using inv by (simp add: on_instance_def)
next
  case True
  let ?w = "on_instance i open_sheet w"
  have le: "k \<le> count ?w" if "j < length (insts w)" "held ?w j = Some k" for j k
  proof (cases "j = i")
    case True
    then show ?thesis using that \<open>i < length (insts w)\<close> by (simp add: held_open count_open)
  next
    case False
    then have "held w j = Some k" using that True by (simp add: held_open)
    then have "k \<le> count w" using inv that(1) by (rule stack_inv_le [rotated 2])
    then show ?thesis using True by (simp add: count_open)
  qed
  have di: "held ?w l \<noteq> Some k"
    if "j < length (insts w)" "l < length (insts w)" "j \<noteq> l" "held ?w j = Some k" for j l k
  proof (cases "j = i")
    case ji: True
    then have k: "k = count w + 1" using that True by (simp add: held_open)
    have li: "l \<noteq> i" using that ji by simp
    have "held w l \<noteq> Some (count w + 1)"
    proof
      assume "held w l = Some (count w + 1)"
      then have "count w + 1 \<le> count w" using inv that(2) by (rule stack_inv_le [rotated 2])
      then show False by simp
    qed
    then show ?thesis using k li that(2) True by (simp add: held_open)
  next
    case ji: False
    then have hj: "held w j = Some k" using that True by (simp add: held_open)
    show ?thesis
    proof (cases "l = i")
      case li: True
      have "k \<le> count w" using inv that(1) hj by (rule stack_inv_le)
      then show ?thesis using li True by (simp add: held_open)
    next
      case li: False
      have "held w l \<noteq> Some k" using inv that(1,2,3) hj by (rule stack_inv_distinct)
      then show ?thesis using li that(2) True by (simp add: held_open)
    qed
  qed
  show ?thesis
    unfolding stack_inv_def length_on_instance using le di by blast
qed

lemma topmost_held:
  assumes "topmost w i" "held w i = Some k" "j < length (insts w)" "held w j = Some m"
  shows "m \<le> k"
proof -
  have "list_all (holds_at_most k) (insts w)"
    using assms(1,2) by (simp add: topmost_def held_def)
  then have "holds_at_most k (insts w ! j)" using assms(3) by (simp add: list_all_length)
  then show ?thesis using assms(4) by (simp add: holds_at_most_def held_def)
qed

lemma stack_inv_close:
  assumes inv: "stack_inv w" and top: "i < length (insts w) \<longrightarrow> topmost w i"
  shows "stack_inv (on_instance i (close r) w)"
proof (cases "i < length (insts w)")
  case False
  then show ?thesis using inv by (simp add: on_instance_def)
next
  case True
  then have tm: "topmost w i" using top by simp
  let ?w = "on_instance i (close r) w"
  have old: "j \<noteq> i \<and> held w j = Some m" if "j < length (insts w)" "held ?w j = Some m" for j m
    using that True by (cases "j = i") (simp_all add: held_close)
  have le: "m \<le> count ?w" if "j < length (insts w)" "held ?w j = Some m" for j m
  proof -
    have ji: "j \<noteq> i" and hj: "held w j = Some m" using old [OF that] by simp_all
    have mle: "m \<le> count w" using inv that(1) hj by (rule stack_inv_le)
    show ?thesis
    proof (cases "held w i")
      case None
      then show ?thesis using True mle by (simp add: count_close)
    next
      case (Some k)
      have "m \<le> k" using tm Some that(1) hj by (rule topmost_held)
      moreover have "held w i \<noteq> Some m" using inv that(1) True ji hj by (rule stack_inv_distinct)
      moreover have "k \<le> count w" using inv True Some by (rule stack_inv_le)
      ultimately have "m \<le> count w - 1" using Some by simp
      then show ?thesis using True Some by (simp add: count_close)
    qed
  qed
  have di: "held ?w l \<noteq> Some k"
    if "j < length (insts w)" "l < length (insts w)" "j \<noteq> l" "held ?w j = Some k" for j l k
  proof (cases "l = i")
    case li: True
    then show ?thesis using True by (simp add: held_close)
  next
    case li: False
    have hj: "held w j = Some k" using old [OF that(1,4)] by simp
    have "held w l \<noteq> Some k" using inv that(1,2,3) hj by (rule stack_inv_distinct)
    then show ?thesis using li that(2) True by (simp add: held_close)
  qed
  show ?thesis
    unfolding stack_inv_def length_on_instance using le di by blast
qed

lemma stack_inv_initial: "stack_inv (initial_page cfgs)"
  by (simp add: stack_inv_def initial_page_def held_def initial_sheet_def)

lemma stack_inv_run_ops: "closes_topmost ops w \<Longrightarrow> stack_inv w \<Longrightarrow> stack_inv (run_ops ops w)"
proof (induction ops arbitrary: w)
  case Nil
  then show ?case by (simp add: run_ops_def)
next
  case (Cons op ops)
  show ?case
  proof (cases op)
    case (Open i)
    have "stack_inv (run_ops ops (on_instance i open_sheet w))"
      using Cons.prems Open by (intro Cons.IH stack_inv_open) simp_all
    then show ?thesis using Open by (simp add: run_ops_def)
  next
    case (Close i r)
    have "stack_inv (run_ops ops (on_instance i (close r) w))"
      using Cons.prems Close by (intro Cons.IH stack_inv_close) simp_all
    then show ?thesis using Close by (simp add: run_ops_def)
  qed
qed

lemma length_page_step: "length (insts (page_step op w)) = length (insts w)"
  by (cases op) (simp_all add: length_on_instance)

lemma length_run_ops: "length (insts (run_ops ops w)) = length (insts w)"
  by (induction ops arbitrary: w) (simp_all add: run_ops_def length_page_step)

text \<open>
  Claim C9, as the code has it. \<open>open\<close> gives the sheet the incremented counter as index;
  \<open>close\<close> releases the index and, when the sheet held one, decrements the counter with
  floor 0. As long as every close is applied to a sheet that holds no index or the highest
  index held on the page, two different sheets never hold the same index.
\<close>

theorem stack_index_lifo:
  assumes "closes_topmost ops (initial_page cfgs)"
    and "i < length cfgs" and "j < length cfgs" and "i \<noteq> j"
    and "stackIndex (insts (run_ops ops (initial_page cfgs)) ! i) = Some k"
  shows "stackIndex (insts (run_ops ops (initial_page cfgs)) ! j) \<noteq> Some k \<and>
         stackIndex (open_sheet s) = Some (STACK_COUNT s + 1) \<and>
         STACK_COUNT (open_sheet s) = STACK_COUNT s + 1 \<and>
         stackIndex (close r s) = None \<and>
         STACK_COUNT (close r s) =
           (if stackIndex s = None then STACK_COUNT s else max 0 (STACK_COUNT s - 1))"
proof -
  let ?w = "run_ops ops (initial_page cfgs)"
  have inv: "stack_inv ?w"
    using assms(1) by (intro stack_inv_run_ops stack_inv_initial)
  have len: "length (insts ?w) = length cfgs"
    by (simp add: length_run_ops initial_page_def)
  have "held ?w j \<noteq> Some k"
    using inv assms(2,3,4,5) by (intro stack_inv_distinct [of ?w i j k]) (simp_all add: len held_def)
  then show ?thesis by (simp add: open_sheet_stack close_stack held_def)
qed

theorem stack_index_lifo_witness:
  "closes_topmost [Open 0, Open 1, Close 1 Programmatic, Open 2]
     (initial_page [default_config, default_config, default_config]) \<and>
   (0::nat) < length [default_config, default_config, default_config] \<and>
   (2::nat) < length [default_config, default_config, default_config] \<and>
   (0::nat) \<noteq> 2 \<and>
   stackIndex (insts (run_ops [Open 0, Open 1, Close 1 Programmatic, Open 2]
     (initial_page [default_config, default_config, default_config])) ! 0) = Some 1 \<and>
   stackIndex (insts (run_ops [Open 0, Open 1, Close 1 Programmatic, Open 2]
     (initial_page [default_config, default_config, default_config])) ! 2) \<noteq> Some 1 \<and>
   stackIndex (insts (run_ops [Open 0, Open 1, Close 1 Programmatic, Open 2]
     (initial_page [default_config, default_config, default_config])) ! 2) = Some 2"
  using stack_index_lifo [of "[Open 0, Open 1, Close 1 Programmatic, Open 2]"
      "[default_config, default_config, default_config]" 0 2 1]
  by (simp add: run_ops_def initial_page_def on_instance_def Let_def
      open_sheet_def close_def emit_def requestAnimationFrame_def initial_sheet_def
      topmost_def holds_at_most_def)

text \<open>
  The claim as stated fails when the lower of two open sheets closes first: the third
  sheet is then given index 2 while the second still holds it.
\<close>

theorem stack_index_reuse_counterexample:
  "stackIndex (insts (run_ops [Open 0, Open 1, Close 0 Programmatic, Open 2] three_sheets) ! 1) = Some 2 \<and>
   stackIndex (insts (run_ops [Open 0, Open 1, Close 0 Programmatic, Open 2] three_sheets) ! 2) = Some 2"
  by (simp add: run_ops_def three_sheets_def initial_page_def on_instance_def Let_def
      open_sheet_def close_def emit_def requestAnimationFrame_def initial_sheet_def)

end
